theory Spec2Isabelle
  imports Main "HOL-Library.Word" "HOL-Library.Monad_Syntax"
begin

section \<open>CPU masks\<close>

text \<open>
  The driver file \<^verbatim>\<open>drivers/infiniband/hw/hfi1/affinity.c\<close> works on kernel CPU masks.
  The header that implements them is not part of the file, so the primitives are modelled
  here after their kernel contract: a mask is the set of the CPU ids whose bit is set, and
  every id in a mask is below \<open>nr_cpu_ids\<close> (the number of bits of a mask). CPU ids are
  C \<^verbatim>\<open>int\<close>s in the driver, so they are \<open>int\<close> here, and \<open>-1\<close> keeps its role of
  "no CPU".

  \<^item> \<^verbatim>\<open>cpumask_clear\<close> is \<open>{}\<close>, \<^verbatim>\<open>cpumask_copy\<close> is assignment,
    \<^verbatim>\<open>cpumask_and\<close>, \<^verbatim>\<open>cpumask_or\<close>, \<^verbatim>\<open>cpumask_andnot\<close> are \<open>\<inter>\<close>, \<open>\<union>\<close>, \<open>-\<close>,
    \<^verbatim>\<open>cpumask_equal\<close> is \<open>=\<close>, \<^verbatim>\<open>cpumask_empty\<close> is \<open>= {}\<close>;
  \<^item> \<^verbatim>\<open>cpumask_first\<close> and \<^verbatim>\<open>cpumask_next\<close> return \<open>nr_cpu_ids\<close> when no bit is found;
  \<^item> setting, clearing or testing a bit whose index is not below \<open>nr_cpu_ids\<close> is outside
    the mask: the model stops there with \<open>None\<close> (a negative \<^verbatim>\<open>int\<close> becomes a huge
    unsigned index, so it is out of range as well).

  In every function below the result \<open>None\<close> stands for a run that leaves defined
  behaviour: a bit index out of range, a missing registry entry that is dereferenced, an
  array index out of bounds, or a division by zero.
\<close>

type_synonym cpumask = "int set"

definition cpumask_ok :: "int \<Rightarrow> cpumask \<Rightarrow> bool" where
  "cpumask_ok nr m = (m \<subseteq> {0..<nr})"

definition cpumask_weight :: "cpumask \<Rightarrow> int" where
  "cpumask_weight m = int (card m)"

definition cpumask_first :: "int \<Rightarrow> cpumask \<Rightarrow> int" where
  "cpumask_first nr m = (if m = {} then nr else Min m)"

definition cpumask_next :: "int \<Rightarrow> int \<Rightarrow> cpumask \<Rightarrow> int" where
  "cpumask_next nr n m = cpumask_first nr {c \<in> m. n < c}"

definition cpumask_set_cpu :: "int \<Rightarrow> int \<Rightarrow> cpumask \<Rightarrow> cpumask option" where
  "cpumask_set_cpu nr cpu m = (if 0 \<le> cpu \<and> cpu < nr then Some (insert cpu m) else None)"

definition cpumask_clear_cpu :: "int \<Rightarrow> int \<Rightarrow> cpumask \<Rightarrow> cpumask option" where
  "cpumask_clear_cpu nr cpu m = (if 0 \<le> cpu \<and> cpu < nr then Some (m - {cpu}) else None)"

definition cpumask_test_cpu :: "int \<Rightarrow> int \<Rightarrow> cpumask \<Rightarrow> bool option" where
  "cpumask_test_cpu nr cpu m = (if 0 \<le> cpu \<and> cpu < nr then Some (cpu \<in> m) else None)"

definition cpumask_shift_left :: "int \<Rightarrow> cpumask \<Rightarrow> int \<Rightarrow> cpumask" where
  "cpumask_shift_left nr m n = {c \<in> (\<lambda>c. c + n) ` m. c < nr}"

section \<open>The allocatable CPU set\<close>

text \<open>
  \<^verbatim>\<open>struct cpu_mask_set { struct cpumask mask; struct cpumask used; uint gen; }\<close>.
  The generation counter is a 32-bit unsigned integer: \<open>+\<close> and \<open>-\<close> wrap around.
\<close>

record cpu_mask_set =
  cms_mask :: cpumask
  cms_used :: cpumask
  cms_gen :: "32 word"

definition init_cpu_mask_set :: "cpu_mask_set" where
  "init_cpu_mask_set = \<lparr>cms_mask = {}, cms_used = {}, cms_gen = 0\<rparr>"

text \<open>
  The body of \<^verbatim>\<open>if (cpu == -1 && set) { ... }\<close> in \<^verbatim>\<open>get_irq_affinity\<close>: when every CPU
  of the set is used, bump the generation and reset \<open>used\<close>; then take the first CPU of
  \<open>mask - used\<close> and mark it used. On an exhausted difference \<^verbatim>\<open>cpumask_first\<close> yields
  \<open>nr_cpu_ids\<close>, and marking that bit is out of range.
\<close>

definition get_irq_affinity_set :: "int \<Rightarrow> cpu_mask_set \<Rightarrow> (int \<times> cpu_mask_set) option" where
  "get_irq_affinity_set nr set0 =
    (let set1 = (if cms_mask set0 = cms_used set0
                 then set0\<lparr>cms_gen := cms_gen set0 + 1, cms_used := {}\<rparr>
                 else set0);
         diff = cms_mask set1 - cms_used set1;
         cpu = cpumask_first nr diff
     in do {
       used' \<leftarrow> cpumask_set_cpu nr cpu (cms_used set1);
       Some (cpu, set1\<lparr>cms_used := used'\<rparr>)
     })"

text \<open>
  The body of \<^verbatim>\<open>if (set) { ... }\<close> in \<^verbatim>\<open>hfi1_put_irq_affinity\<close>: remove the vector's
  mask from \<open>used\<close>; when \<open>used\<close> is then empty and the generation is not zero, step the
  generation back and mark every CPU of the set used.
\<close>

definition put_irq_affinity_set :: "cpumask \<Rightarrow> cpu_mask_set \<Rightarrow> cpu_mask_set" where
  "put_irq_affinity_set msix_mask set0 =
    (let set1 = set0\<lparr>cms_used := cms_used set0 - msix_mask\<rparr>
     in if cms_used set1 = {} \<and> cms_gen set1 \<noteq> 0
        then set1\<lparr>cms_gen := cms_gen set1 - 1, cms_used := cms_mask set1\<rparr>
        else set1)"

text \<open>The data-model invariant of a set: the used CPUs are CPUs of the mask.\<close>

definition cpu_mask_set_ok :: "cpu_mask_set \<Rightarrow> bool" where
  "cpu_mask_set_ok s = (cms_used s \<subseteq> cms_mask s)"

text \<open>\<open>n\<close> allocations in a row from the same set, with the CPUs they return, in order.\<close>

fun get_irq_affinity_set_n :: "int \<Rightarrow> nat \<Rightarrow> cpu_mask_set \<Rightarrow> (int list \<times> cpu_mask_set) option" where
  "get_irq_affinity_set_n nr 0 s = Some ([], s)"
| "get_irq_affinity_set_n nr (Suc n) s =
     do {
       (cpu, s') \<leftarrow> get_irq_affinity_set nr s;
       (cpus, s'') \<leftarrow> get_irq_affinity_set_n nr n s';
       Some (cpu # cpus, s'')
     }"

section \<open>The registry of NUMA nodes\<close>

text \<open>
  \<^verbatim>\<open>struct hfi1_affinity_node\<close> (one per NUMA node) and
  \<^verbatim>\<open>struct hfi1_affinity_node_list\<close> (the global \<^verbatim>\<open>node_affinity\<close>). The linked list is a
  HOL list, \<^verbatim>\<open>list_add_tail\<close> appends, and a pointer to an entry is its position in the
  list. The counts are non-negative C \<^verbatim>\<open>int\<close>s, far below overflow: they are \<open>nat\<close>.
\<close>

record hfi1_affinity_node =
  node :: int
  def_intr :: cpu_mask_set
  rcv_intr :: cpu_mask_set
  general_intr_mask :: cpumask

record hfi1_affinity_node_list =
  node_list :: "hfi1_affinity_node list"
  real_cpu_mask :: cpumask
  proc :: cpu_mask_set
  num_core_siblings :: nat
  num_possible_nodes :: nat
  num_online_nodes :: nat
  num_online_cpus :: nat

text \<open>
  What the file asks of the rest of the kernel, as parameters: the number of CPU ids, the
  online mask, the CPUs of a node, the hyperthread siblings of a CPU
  (\<^verbatim>\<open>cpu_sibling_mask\<close> and \<^verbatim>\<open>topology_sibling_cpumask\<close> read the same per-CPU map), the
  CPUs of the package of a CPU, the node counts, the node of the running CPU, the node of
  the bus of every PCI device that matches the driver's id table (in scan order), and
  the number \<^verbatim>\<open>HFI1_CTRL_CTXT\<close> of the control context.
\<close>

record topology =
  nr_cpu_ids :: int
  cpu_online_mask :: cpumask
  cpumask_of_node :: "int \<Rightarrow> cpumask"
  cpu_sibling_mask :: "int \<Rightarrow> cpumask"
  topology_core_cpumask :: "int \<Rightarrow> cpumask"
  topo_possible_nodes :: nat
  topo_online_nodes :: nat
  numa_node_id :: int
  pci_dev_nodes :: "int list"
  HFI1_CTRL_CTXT :: nat

definition num_online_cpus_now :: "topology \<Rightarrow> int" where
  "num_online_cpus_now sys = cpumask_weight (cpu_online_mask sys)"

text \<open>
  The file's global state: \<^verbatim>\<open>node_affinity\<close> and the array \<^verbatim>\<open>hfi1_per_node_cntr\<close>
  (empty while it is not allocated).
\<close>

record affinity_state =
  node_affinity :: hfi1_affinity_node_list
  hfi1_per_node_cntr :: "nat list"

definition ENOMEM :: int where "ENOMEM = 12"
definition EINVAL :: int where "EINVAL = 22"

text \<open>Reading and bumping \<^verbatim>\<open>hfi1_per_node_cntr[node]\<close>; an index outside the array stops the run.\<close>

definition per_node_cntr_get :: "nat list \<Rightarrow> int \<Rightarrow> nat option" where
  "per_node_cntr_get cntr n = (if 0 \<le> n \<and> nat n < length cntr then Some (cntr ! nat n) else None)"

definition per_node_cntr_inc :: "nat list \<Rightarrow> int \<Rightarrow> nat list option" where
  "per_node_cntr_inc cntr n =
     (if 0 \<le> n \<and> nat n < length cntr then Some (cntr[nat n := cntr ! nat n + 1]) else None)"

subsection \<open>Topology bootstrap\<close>

text \<open>\<^verbatim>\<open>for (...; i++) curr_cpu = cpumask_next(curr_cpu, mask);\<close> run \<open>k\<close> times.\<close>

fun skip_cpus :: "int \<Rightarrow> nat \<Rightarrow> int \<Rightarrow> cpumask \<Rightarrow> int" where
  "skip_cpus nr 0 curr_cpu m = curr_cpu"
| "skip_cpus nr (Suc k) curr_cpu m = skip_cpus nr k (cpumask_next nr curr_cpu m) m"

text \<open>
  \<^verbatim>\<open>for (...; i++) { cpumask_clear_cpu(curr_cpu, mask); curr_cpu = cpumask_next(curr_cpu, mask); }\<close>
  run \<open>k\<close> times.
\<close>

fun clear_cpus :: "int \<Rightarrow> nat \<Rightarrow> int \<Rightarrow> cpumask \<Rightarrow> cpumask option" where
  "clear_cpus nr 0 curr_cpu m = Some m"
| "clear_cpus nr (Suc k) curr_cpu m =
     do {
       m' \<leftarrow> cpumask_clear_cpu nr curr_cpu m;
       clear_cpus nr k (cpumask_next nr curr_cpu m') m'
     }"

definition init_real_cpu_mask :: "topology \<Rightarrow> cpumask option" where
  "init_real_cpu_mask sys =
    (let nr = nr_cpu_ids sys;
         m = cpu_online_mask sys;
         possible = card m;
         ht = card (cpu_sibling_mask sys (cpumask_first nr m))
     in if ht = 0 then None
        else
          let curr_cpu = skip_cpus nr (possible div ht) (cpumask_first nr m) m
          in clear_cpus nr (possible - possible div ht) curr_cpu m)"

text \<open>The scan of the PCI devices: \<^verbatim>\<open>hfi1_per_node_cntr[node]++\<close> for each one.\<close>

fun count_devices :: "topology \<Rightarrow> int list \<Rightarrow> nat list \<Rightarrow> nat list option" where
  "count_devices sys [] cntr = Some cntr"
| "count_devices sys (n # ns) cntr =
     do {
       cntr' \<leftarrow> per_node_cntr_inc cntr (if n < 0 then numa_node_id sys else n);
       count_devices sys ns cntr'
     }"

text \<open>
  \<^verbatim>\<open>node_affinity_init\<close>. \<open>kcalloc_ok\<close> tells whether the allocation of the counter array
  succeeds; the list of entries is left as it is (it is statically empty at load time).
\<close>

definition node_affinity_init :: "topology \<Rightarrow> bool \<Rightarrow> affinity_state \<Rightarrow> (int \<times> affinity_state) option" where
  "node_affinity_init sys kcalloc_ok st =
    (let aff0 = node_affinity st;
         proc' = \<lparr>cms_mask = cpu_online_mask sys, cms_used = {}, cms_gen = 0\<rparr>;
         aff1 = aff0\<lparr>proc := proc',
                     num_core_siblings :=
                       card (cpu_sibling_mask sys (cpumask_first (nr_cpu_ids sys) (cms_mask proc'))),
                     num_possible_nodes := topo_possible_nodes sys,
                     num_online_nodes := topo_online_nodes sys,
                     num_online_cpus := card (cpu_online_mask sys)\<rparr>
     in do {
       real \<leftarrow> init_real_cpu_mask sys;
       let aff2 = aff1\<lparr>real_cpu_mask := real\<rparr>;
       if \<not> kcalloc_ok
       then Some (- ENOMEM, \<lparr>node_affinity = aff2, hfi1_per_node_cntr = []\<rparr>)
       else do {
         cntr \<leftarrow> count_devices sys (pci_dev_nodes sys) (replicate (num_possible_nodes aff2) 0);
         Some (0, \<lparr>node_affinity = aff2, hfi1_per_node_cntr = cntr\<rparr>)
       }
     })"

text \<open>\<^verbatim>\<open>node_affinity_lookup\<close>: the first entry of the list for the node, as its position.\<close>

fun node_affinity_lookup :: "hfi1_affinity_node list \<Rightarrow> int \<Rightarrow> nat option" where
  "node_affinity_lookup [] n = None"
| "node_affinity_lookup (e # es) n =
     (if node e = n then Some 0 else map_option Suc (node_affinity_lookup es n))"

section \<open>Devices, interrupt vectors and DMA engines\<close>

text \<open>
  The parts of \<^verbatim>\<open>struct hfi1_devdata\<close>, \<^verbatim>\<open>struct hfi1_msix_entry\<close> and
  \<^verbatim>\<open>struct sdma_engine\<close> that the file reads or writes. The names of \<^verbatim>\<open>irq_type_names\<close>
  give the order of \<^verbatim>\<open>enum irq_type\<close>. The argument of a vector is a pointer: to the DMA
  engine \<open>k\<close> of the device (\<open>Arg_sde k\<close>) or to a receive context whose number is \<open>c\<close>
  (\<open>Arg_rcd c\<close>). The interrupt layer keeps the affinity hint of a vector as a pointer to
  the vector's own mask, so the hint is a flag: set or cleared.
\<close>

datatype irq_type = IRQ_SDMA | IRQ_RCVCTXT | IRQ_GENERAL | IRQ_OTHER

datatype irq_arg = Arg_sde nat | Arg_rcd nat | Arg_none

record sdma_engine =
  sde_cpu :: int

record hfi1_msix_entry =
  msix_type :: irq_type
  msix_arg :: irq_arg
  msix_mask :: cpumask
  msix_hint :: bool

record hfi1_devdata =
  pcibus_node :: int
  dd_node :: int
  n_krcv_queues :: nat
  msix_entries :: "hfi1_msix_entry list"
  per_sdma :: "sdma_engine list"

section \<open>Device attach\<close>

text \<open>
  The loop of \<^verbatim>\<open>hfi1_dev_affinity_init\<close> that moves CPUs from the default list to the
  receive list: \<open>k\<close> is the number of iterations the bound still allows; the loop also ends
  when \<^verbatim>\<open>cpumask_next\<close> finds no further CPU.
\<close>

fun move_rcv_cpus :: "int \<Rightarrow> nat \<Rightarrow> int \<Rightarrow> cpumask \<Rightarrow> cpumask \<Rightarrow> (cpumask \<times> cpumask) option" where
  "move_rcv_cpus nr 0 curr_cpu def_mask rcv_mask = Some (def_mask, rcv_mask)"
| "move_rcv_cpus nr (Suc k) curr_cpu def_mask rcv_mask =
     do {
       def_mask' \<leftarrow> cpumask_clear_cpu nr curr_cpu def_mask;
       rcv_mask' \<leftarrow> cpumask_set_cpu nr curr_cpu rcv_mask;
       let curr_cpu' = cpumask_next nr curr_cpu def_mask';
       if curr_cpu' \<ge> nr then Some (def_mask', rcv_mask')
       else move_rcv_cpus nr k curr_cpu' def_mask' rcv_mask'
     }"

text \<open>
  The loop bound \<^verbatim>\<open>(dd->n_krcv_queues - 1) * hfi1_per_node_cntr[dd->node]\<close> is computed in
  32-bit unsigned arithmetic (the counter is an \<^verbatim>\<open>unsigned int\<close>).
\<close>

definition rcv_loop_bound :: "nat \<Rightarrow> nat \<Rightarrow> nat" where
  "rcv_loop_bound krcv cntr = nat (((int krcv - 1) * int cntr) mod 2 ^ 32)"

text \<open>
  The entry that \<^verbatim>\<open>hfi1_dev_affinity_init\<close> builds for a node it sees for the first time,
  from the node's candidate mask (the real CPUs that are local to the node).
\<close>

definition new_affinity_node ::
    "int \<Rightarrow> nat list \<Rightarrow> nat \<Rightarrow> int \<Rightarrow> cpumask \<Rightarrow> hfi1_affinity_node option" where
  "new_affinity_node nr cntr krcv n candidate =
    (let possible = cpumask_weight candidate;
         curr_cpu = cpumask_first nr candidate
     in if possible = 1 then
          do {
            rcv_mask \<leftarrow> cpumask_set_cpu nr curr_cpu {};
            general \<leftarrow> cpumask_set_cpu nr curr_cpu {};
            Some \<lparr>node = n,
                  def_intr = init_cpu_mask_set\<lparr>cms_mask := candidate\<rparr>,
                  rcv_intr = init_cpu_mask_set\<lparr>cms_mask := rcv_mask\<rparr>,
                  general_intr_mask = general\<rparr>
          }
        else
          do {
            def_mask1 \<leftarrow> cpumask_clear_cpu nr curr_cpu candidate;
            general \<leftarrow> cpumask_set_cpu nr curr_cpu {};
            let curr_cpu1 = cpumask_next nr curr_cpu def_mask1;
            per_node \<leftarrow> per_node_cntr_get cntr n;
            (def_mask2, rcv_mask) \<leftarrow>
              move_rcv_cpus nr (rcv_loop_bound krcv per_node) curr_cpu1 def_mask1 {};
            let def_mask3 = (if cpumask_weight def_mask2 = 0 then general else def_mask2);
            Some \<lparr>node = n,
                  def_intr = init_cpu_mask_set\<lparr>cms_mask := def_mask3\<rparr>,
                  rcv_intr = init_cpu_mask_set\<lparr>cms_mask := rcv_mask\<rparr>,
                  general_intr_mask = general\<rparr>
          })"

text \<open>
  The node of a device: the node of its PCI bus, or the node of the running CPU when the
  bus has none. The local mask of a node: its CPUs, or the package of CPU 0 when the node
  has no CPU.
\<close>

definition dev_node :: "topology \<Rightarrow> hfi1_devdata \<Rightarrow> int" where
  "dev_node sys dd = (if pcibus_node dd < 0 then numa_node_id sys else pcibus_node dd)"

definition dev_local_mask :: "topology \<Rightarrow> int \<Rightarrow> cpumask" where
  "dev_local_mask sys n =
     (if cpumask_first (nr_cpu_ids sys) (cpumask_of_node sys n) \<ge> nr_cpu_ids sys
      then topology_core_cpumask sys 0
      else cpumask_of_node sys n)"

text \<open>
  \<^verbatim>\<open>hfi1_dev_affinity_init\<close>. \<open>kzalloc_ok\<close> tells whether the allocation of a new entry
  succeeds. The function returns 0 or \<open>-ENOMEM\<close>, the new global state and the device
  (whose \<open>node\<close> field it sets).
\<close>

definition hfi1_dev_affinity_init ::
    "topology \<Rightarrow> bool \<Rightarrow> affinity_state \<Rightarrow> hfi1_devdata \<Rightarrow> (int \<times> affinity_state \<times> hfi1_devdata) option" where
  "hfi1_dev_affinity_init sys kzalloc_ok st dd0 =
    (let n = dev_node sys dd0;
         dd = dd0\<lparr>dd_node := n\<rparr>;
         local_mask = dev_local_mask sys (dd_node dd);
         aff = node_affinity st
     in case node_affinity_lookup (node_list aff) (dd_node dd) of
          Some i \<Rightarrow> Some (0, st, dd)
        | None \<Rightarrow>
            if \<not> kzalloc_ok then Some (- ENOMEM, st, dd)
            else
              do {
                entry \<leftarrow> new_affinity_node (nr_cpu_ids sys) (hfi1_per_node_cntr st) (n_krcv_queues dd) n
                           (real_cpu_mask aff \<inter> local_mask);
                Some (0, st\<lparr>node_affinity := aff\<lparr>node_list := node_list aff @ [entry]\<rparr>\<rparr>, dd)
              })"

section \<open>Interrupt affinity\<close>

text \<open>
  Which set of the entry a vector draws from: \<^verbatim>\<open>set = &entry->def_intr\<close>,
  \<^verbatim>\<open>set = &entry->rcv_intr\<close>, or \<^verbatim>\<open>set = NULL\<close>.
\<close>

datatype set_ptr = Set_def_intr | Set_rcv_intr

fun entry_set :: "set_ptr \<Rightarrow> hfi1_affinity_node \<Rightarrow> cpu_mask_set" where
  "entry_set Set_def_intr e = def_intr e"
| "entry_set Set_rcv_intr e = rcv_intr e"

fun entry_set_update :: "set_ptr \<Rightarrow> cpu_mask_set \<Rightarrow> hfi1_affinity_node \<Rightarrow> hfi1_affinity_node" where
  "entry_set_update Set_def_intr s e = e\<lparr>def_intr := s\<rparr>"
| "entry_set_update Set_rcv_intr s e = e\<lparr>rcv_intr := s\<rparr>"

text \<open>
  The \<^verbatim>\<open>switch (msix->type)\<close> of \<^verbatim>\<open>get_irq_affinity\<close>, for the three known types: the set
  to draw from (if any) and the fixed CPU (or \<open>-1\<close>). Reading the general mask
  dereferences the entry; an argument of the wrong kind is a wild pointer.
\<close>

definition get_irq_affinity_switch ::
    "topology \<Rightarrow> hfi1_affinity_node option \<Rightarrow> hfi1_devdata \<Rightarrow> hfi1_msix_entry \<Rightarrow> (set_ptr option \<times> int) option" where
  "get_irq_affinity_switch sys entry dd msix =
    (case msix_type msix of
       IRQ_SDMA \<Rightarrow>
         (case msix_arg msix of
            Arg_sde k \<Rightarrow> if k < length (per_sdma dd) then Some (Some Set_def_intr, - 1) else None
          | _ \<Rightarrow> None)
     | IRQ_GENERAL \<Rightarrow>
         (case entry of
            None \<Rightarrow> None
          | Some e \<Rightarrow> Some (None, cpumask_first (nr_cpu_ids sys) (general_intr_mask e)))
     | IRQ_RCVCTXT \<Rightarrow>
         (case msix_arg msix of
            Arg_rcd ctxt \<Rightarrow>
              if ctxt = HFI1_CTRL_CTXT sys
              then (case entry of
                      None \<Rightarrow> None
                    | Some e \<Rightarrow> Some (None, cpumask_first (nr_cpu_ids sys) (general_intr_mask e)))
              else Some (Some Set_rcv_intr, - 1)
          | _ \<Rightarrow> None)
     | IRQ_OTHER \<Rightarrow> None)"

text \<open>
  \<^verbatim>\<open>get_irq_affinity\<close> on the vector \<open>i\<close> of the device, and \<^verbatim>\<open>hfi1_get_irq_affinity\<close>, which
  only takes the lock around it. \<open>alloc_ok\<close> tells whether \<^verbatim>\<open>zalloc_cpumask_var\<close> succeeds.
  The function returns 0, \<open>-ENOMEM\<close> or \<open>-EINVAL\<close>, the registry and the device.
\<close>

definition get_irq_affinity ::
    "topology \<Rightarrow> bool \<Rightarrow> hfi1_affinity_node_list \<Rightarrow> hfi1_devdata \<Rightarrow> nat \<Rightarrow>
     (int \<times> hfi1_affinity_node_list \<times> hfi1_devdata) option" where
  "get_irq_affinity sys alloc_ok aff dd0 i =
    (if i \<ge> length (msix_entries dd0) then None
     else
       let nr = nr_cpu_ids sys;
           msix = (msix_entries dd0 ! i)\<lparr>msix_mask := {}\<rparr>;
           dd = dd0\<lparr>msix_entries := (msix_entries dd0)[i := msix]\<rparr>
       in if \<not> alloc_ok then Some (- ENOMEM, aff, dd)
          else
            let pos = node_affinity_lookup (node_list aff) (dd_node dd);
                entry = map_option (\<lambda>p. node_list aff ! p) pos
            in if msix_type msix = IRQ_OTHER then Some (- EINVAL, aff, dd)
               else
                 do {
                   (set, cpu0) \<leftarrow> get_irq_affinity_switch sys entry dd msix;
                   (cpu, aff') \<leftarrow>
                     (if cpu0 = - 1 \<and> set \<noteq> None then
                        do {
                          p \<leftarrow> pos;
                          (c, s') \<leftarrow> get_irq_affinity_set nr (entry_set (the set) (node_list aff ! p));
                          Some (c, aff\<lparr>node_list :=
                                          (node_list aff)[p := entry_set_update (the set) s' (node_list aff ! p)]\<rparr>)
                        }
                      else Some (cpu0, aff));
                   mask' \<leftarrow> cpumask_set_cpu nr cpu (msix_mask msix);
                   let msix' = msix\<lparr>msix_mask := mask', msix_hint := True\<rparr>;
                   let dd1 = dd\<lparr>msix_entries := (msix_entries dd)[i := msix']\<rparr>;
                   let dd2 = (case (msix_type msix, msix_arg msix) of
                                (IRQ_SDMA, Arg_sde k) \<Rightarrow>
                                  dd1\<lparr>per_sdma := (per_sdma dd1)[k := (per_sdma dd1 ! k)\<lparr>sde_cpu := cpu\<rparr>]\<rparr>
                              | _ \<Rightarrow> dd1);
                   Some (0, aff', dd2)
                 })"

definition hfi1_get_irq_affinity ::
    "topology \<Rightarrow> bool \<Rightarrow> hfi1_affinity_node_list \<Rightarrow> hfi1_devdata \<Rightarrow> nat \<Rightarrow>
     (int \<times> hfi1_affinity_node_list \<times> hfi1_devdata) option" where
  "hfi1_get_irq_affinity sys alloc_ok aff dd i = get_irq_affinity sys alloc_ok aff dd i"

text \<open>The \<^verbatim>\<open>switch (msix->type)\<close> of \<^verbatim>\<open>hfi1_put_irq_affinity\<close> for the three known types.\<close>

definition put_irq_affinity_switch :: "topology \<Rightarrow> hfi1_msix_entry \<Rightarrow> set_ptr option option" where
  "put_irq_affinity_switch sys msix =
    (case msix_type msix of
       IRQ_SDMA \<Rightarrow> Some (Some Set_def_intr)
     | IRQ_GENERAL \<Rightarrow> Some None
     | IRQ_RCVCTXT \<Rightarrow>
         (case msix_arg msix of
            Arg_rcd ctxt \<Rightarrow> if ctxt \<noteq> HFI1_CTRL_CTXT sys then Some (Some Set_rcv_intr) else Some None
          | _ \<Rightarrow> None)
     | IRQ_OTHER \<Rightarrow> None)"

definition hfi1_put_irq_affinity ::
    "topology \<Rightarrow> hfi1_affinity_node_list \<Rightarrow> hfi1_devdata \<Rightarrow> nat \<Rightarrow>
     (hfi1_affinity_node_list \<times> hfi1_devdata) option" where
  "hfi1_put_irq_affinity sys aff dd i =
    (if i \<ge> length (msix_entries dd) then None
     else
       let msix = msix_entries dd ! i;
           pos = node_affinity_lookup (node_list aff) (dd_node dd)
       in if msix_type msix = IRQ_OTHER then Some (aff, dd)
          else
            do {
              set \<leftarrow> put_irq_affinity_switch sys msix;
              aff' \<leftarrow>
                (case set of
                   None \<Rightarrow> Some aff
                 | Some sp \<Rightarrow>
                     do {
                       p \<leftarrow> pos;
                       let s' = put_irq_affinity_set (msix_mask msix) (entry_set sp (node_list aff ! p));
                       Some (aff\<lparr>node_list := (node_list aff)[p := entry_set_update sp s' (node_list aff ! p)]\<rparr>)
                     });
              let msix' = msix\<lparr>msix_hint := False, msix_mask := {}\<rparr>;
              Some (aff', dd\<lparr>msix_entries := (msix_entries dd)[i := msix']\<rparr>)
            })"

section \<open>External reassignment of a DMA vector\<close>

text \<open>
  The scan of \<^verbatim>\<open>hfi1_update_sdma_affinity\<close> over the vectors of the device, from position
  \<open>j\<close> on: does another DMA vector (not the vector \<open>i\<close> itself) hold \<open>old_cpu\<close> in its mask?
  The scan stops at the first one that does.
\<close>

fun other_sdma_uses :: "int \<Rightarrow> int \<Rightarrow> nat \<Rightarrow> nat \<Rightarrow> hfi1_msix_entry list \<Rightarrow> bool option" where
  "other_sdma_uses nr old_cpu i j [] = Some False"
| "other_sdma_uses nr old_cpu i j (other_msix # rest) =
     (if msix_type other_msix \<noteq> IRQ_SDMA \<or> j = i
      then other_sdma_uses nr old_cpu i (Suc j) rest
      else
        do {
          b \<leftarrow> cpumask_test_cpu nr old_cpu (msix_mask other_msix);
          if b then Some True else other_sdma_uses nr old_cpu i (Suc j) rest
        })"

text \<open>
  The comparison \<^verbatim>\<open>cpu > num_online_cpus()\<close> is between an \<^verbatim>\<open>int\<close> and an
  \<^verbatim>\<open>unsigned int\<close>: the CPU id is converted to 32-bit unsigned first.
\<close>

definition uint_of_int :: "int \<Rightarrow> int" where
  "uint_of_int c = c mod 2 ^ 32"

definition hfi1_update_sdma_affinity ::
    "topology \<Rightarrow> hfi1_affinity_node_list \<Rightarrow> hfi1_devdata \<Rightarrow> nat \<Rightarrow> int \<Rightarrow>
     (hfi1_affinity_node_list \<times> hfi1_devdata) option" where
  "hfi1_update_sdma_affinity sys aff dd i cpu =
    (if i \<ge> length (msix_entries dd) then None
     else
       case msix_arg (msix_entries dd ! i) of
         Arg_sde k \<Rightarrow>
           if k \<ge> length (per_sdma dd) then None
           else
             let nr = nr_cpu_ids sys;
                 msix = msix_entries dd ! i;
                 sde = per_sdma dd ! k
             in if uint_of_int cpu > num_online_cpus_now sys \<or> cpu = sde_cpu sde then Some (aff, dd)
                else
                  (case node_affinity_lookup (node_list aff) (dd_node dd) of
                     None \<Rightarrow> Some (aff, dd)
                   | Some p \<Rightarrow>
                       do {
                         let old_cpu = sde_cpu sde;
                         let sdes' = (per_sdma dd)[k := sde\<lparr>sde_cpu := cpu\<rparr>];
                         mask' \<leftarrow> cpumask_set_cpu nr cpu {};
                         let msix' = msix\<lparr>msix_mask := mask', msix_hint := True\<rparr>;
                         let dd' = dd\<lparr>per_sdma := sdes', msix_entries := (msix_entries dd)[i := msix']\<rparr>;
                         let entry = node_list aff ! p;
                         let set = def_intr entry;
                         m1 \<leftarrow> cpumask_set_cpu nr cpu (cms_mask set);
                         u1 \<leftarrow> cpumask_set_cpu nr cpu (cms_used set);
                         busy \<leftarrow> other_sdma_uses nr old_cpu i 0 (msix_entries dd');
                         (m2, u2) \<leftarrow>
                           (if busy then Some (m1, u1)
                            else
                              do {
                                m \<leftarrow> cpumask_clear_cpu nr old_cpu m1;
                                u \<leftarrow> cpumask_clear_cpu nr old_cpu u1;
                                Some (m, u)
                              });
                         let entry' = entry\<lparr>def_intr := set\<lparr>cms_mask := m2, cms_used := u2\<rparr>\<rparr>;
                         Some (aff\<lparr>node_list := (node_list aff)[p := entry']\<rparr>, dd')
                       })
       | _ \<Rightarrow> None)"

text \<open>\<^verbatim>\<open>hfi1_irq_notifier_notify\<close>: only the first CPU of the new mask is used.\<close>

definition hfi1_irq_notifier_notify ::
    "topology \<Rightarrow> hfi1_affinity_node_list \<Rightarrow> hfi1_devdata \<Rightarrow> nat \<Rightarrow> cpumask \<Rightarrow>
     (hfi1_affinity_node_list \<times> hfi1_devdata) option" where
  "hfi1_irq_notifier_notify sys aff dd i new_mask =
     hfi1_update_sdma_affinity sys aff dd i (cpumask_first (nr_cpu_ids sys) new_mask)"

section \<open>Process affinity\<close>

text \<open>
  \<^verbatim>\<open>find_hw_thread_mask\<close>: keep the first \<open>num_cores_per_socket * num_online_nodes\<close> CPUs
  of the process mask and shift them left by that number times the hardware thread
  number. The divisions come first in the source, so a zero divisor stops the run.
\<close>

definition find_hw_thread_mask :: "int \<Rightarrow> nat \<Rightarrow> hfi1_affinity_node_list \<Rightarrow> cpumask option" where
  "find_hw_thread_mask nr hw_thread_no affinity =
    (if num_core_siblings affinity = 0 \<or> num_online_nodes affinity = 0 then None
     else
       let num_cores_per_socket =
             num_online_cpus affinity div num_core_siblings affinity div num_online_nodes affinity;
           hw_thread_mask = cms_mask (proc affinity);
           possible = card hw_thread_mask;
           curr_cpu = skip_cpus nr (num_cores_per_socket * num_online_nodes affinity)
                        (cpumask_first nr hw_thread_mask) hw_thread_mask
       in do {
         cleared \<leftarrow> clear_cpus nr (possible - num_cores_per_socket * num_online_nodes affinity)
                      curr_cpu hw_thread_mask;
         Some (cpumask_shift_left nr cleared
                 (int (num_cores_per_socket * num_online_nodes affinity * hw_thread_no)))
       })"

text \<open>
  The loop of \<^verbatim>\<open>hfi1_get_proc_affinity\<close> over the hardware thread numbers, from \<open>i\<close> on with
  \<open>k\<close> numbers left: it stops at the first thread number whose mask has an unused CPU, and
  otherwise leaves the mask of the last thread number.
\<close>

fun find_thread_loop ::
    "int \<Rightarrow> hfi1_affinity_node_list \<Rightarrow> nat \<Rightarrow> nat \<Rightarrow> cpumask \<Rightarrow> cpumask option" where
  "find_thread_loop nr affinity i 0 hw_thread_mask = Some hw_thread_mask"
| "find_thread_loop nr affinity i (Suc k) hw_thread_mask =
     do {
       hw' \<leftarrow> find_hw_thread_mask nr i affinity;
       if hw' - cms_used (proc affinity) \<noteq> {} then Some hw'
       else find_thread_loop nr affinity (Suc i) k hw'
     }"

text \<open>
  The mask of the CPUs that interrupt handlers of the node occupy: the whole mask of a
  set once its generation is not zero, its used CPUs otherwise; empty without an entry.
\<close>

definition intrs_mask_of :: "hfi1_affinity_node_list \<Rightarrow> int \<Rightarrow> cpumask" where
  "intrs_mask_of affinity n =
    (case node_affinity_lookup (node_list affinity) n of
       None \<Rightarrow> {}
     | Some p \<Rightarrow>
         let entry = node_list affinity ! p
         in (if cms_gen (def_intr entry) \<noteq> 0 then cms_mask (def_intr entry) else cms_used (def_intr entry))
            \<union> (if cms_gen (rcv_intr entry) \<noteq> 0 then cms_mask (rcv_intr entry) else cms_used (rcv_intr entry))
            \<union> general_intr_mask entry)"

text \<open>
  The candidate CPUs of \<^verbatim>\<open>hfi1_get_proc_affinity\<close>, from the mask of the chosen hardware
  thread, the CPUs of the node, the used CPUs of the process set and the CPUs of the
  interrupt handlers: unused CPUs of the node, without those of interrupt handlers if
  some are left; when the node has none, the same on the other nodes.
\<close>

definition proc_available :: "cpumask \<Rightarrow> cpumask \<Rightarrow> cpumask \<Rightarrow> cpumask \<Rightarrow> cpumask" where
  "proc_available hw_thread_mask node_mask used intrs_mask =
    (let available0 = hw_thread_mask \<inter> node_mask - used;
         diff0 = available0 - intrs_mask;
         available1 = (if diff0 \<noteq> {} then diff0 else available0)
     in if available1 = {} then
          let other = hw_thread_mask - used - node_mask;
              diff1 = other - intrs_mask
          in if diff1 \<noteq> {} then diff1 else other
        else available1)"

text \<open>
  \<^verbatim>\<open>hfi1_get_proc_affinity\<close>: \<open>proc_mask\<close> is the set of CPUs the calling task is allowed
  on, \<open>alloc_ok\<close> tells whether the four scratch masks can be allocated. The function
  returns the CPU (or \<open>-1\<close>) and the registry.
\<close>

definition hfi1_get_proc_affinity ::
    "topology \<Rightarrow> bool \<Rightarrow> hfi1_affinity_node_list \<Rightarrow> int \<Rightarrow> cpumask \<Rightarrow>
     (int \<times> hfi1_affinity_node_list) option" where
  "hfi1_get_proc_affinity sys alloc_ok affinity n proc_mask =
    (let nr = nr_cpu_ids sys;
         set = proc affinity
     in if cpumask_weight proc_mask = 1 then
          do {
            let cpu = cpumask_first nr proc_mask;
            used' \<leftarrow> cpumask_set_cpu nr cpu (cms_used set);
            Some (cpu, affinity\<lparr>proc := set\<lparr>cms_used := used'\<rparr>\<rparr>)
          }
        else if cpumask_weight proc_mask < cpumask_weight (cms_mask set) then Some (- 1, affinity)
        else if \<not> alloc_ok then Some (- 1, affinity)
        else
          let set1 = (if cms_mask set = cms_used set
                      then set\<lparr>cms_gen := cms_gen set + 1, cms_used := {}\<rparr>
                      else set);
              affinity1 = affinity\<lparr>proc := set1\<rparr>;
              intrs_mask = intrs_mask_of affinity1 n
          in do {
            hw_thread_mask \<leftarrow>
              find_thread_loop nr affinity1 0 (num_core_siblings affinity1) (cms_mask set1);
            let available_mask =
                  proc_available hw_thread_mask (cpumask_of_node sys n) (cms_used set1) intrs_mask;
            let cpu = cpumask_first nr available_mask;
            if cpu \<ge> nr then Some (- 1, affinity1)
            else
              do {
                used' \<leftarrow> cpumask_set_cpu nr cpu (cms_used set1);
                Some (cpu, affinity1\<lparr>proc := set1\<lparr>cms_used := used'\<rparr>\<rparr>)
              }
          })"

definition hfi1_put_proc_affinity ::
    "topology \<Rightarrow> hfi1_affinity_node_list \<Rightarrow> int \<Rightarrow> hfi1_affinity_node_list option" where
  "hfi1_put_proc_affinity sys affinity cpu =
    (if cpu < 0 then Some affinity
     else
       do {
         used' \<leftarrow> cpumask_clear_cpu (nr_cpu_ids sys) cpu (cms_used (proc affinity));
         let set1 = (proc affinity)\<lparr>cms_used := used'\<rparr>;
         Some (affinity\<lparr>proc :=
                 (if cms_used set1 = {} \<and> cms_gen set1 \<noteq> 0
                  then set1\<lparr>cms_gen := cms_gen set1 - 1, cms_used := cms_mask set1\<rparr>
                  else set1)\<rparr>)
       })"

section \<open>Sequences of operations\<close>

text \<open>
  The state the operations of the file act on: the file's global state and the devices.
  An operation names the device by its position, carries what the environment decides
  (whether an allocation succeeds, the allowed CPUs of the calling task, the new mask of
  a reassignment), and yields the function's return value (0 for a function that returns
  nothing).
\<close>

record world =
  w_state :: affinity_state
  w_devs :: "hfi1_devdata list"

datatype operation =
    Op_attach nat bool
  | Op_acquire_irq nat nat bool
  | Op_release_irq nat nat
  | Op_advise int cpumask bool
  | Op_release_proc int
  | Op_reassign nat nat cpumask

fun is_advise :: "operation \<Rightarrow> bool" where
  "is_advise (Op_advise n proc_mask alloc_ok) = True"
| "is_advise _ = False"

definition set_registry :: "world \<Rightarrow> hfi1_affinity_node_list \<Rightarrow> world" where
  "set_registry w aff = w\<lparr>w_state := (w_state w)\<lparr>node_affinity := aff\<rparr>\<rparr>"

fun exec :: "topology \<Rightarrow> operation \<Rightarrow> world \<Rightarrow> (int \<times> world) option" where
  "exec sys (Op_attach u kzalloc_ok) w =
     (if u \<ge> length (w_devs w) then None
      else do {
        (r, st', dd') \<leftarrow> hfi1_dev_affinity_init sys kzalloc_ok (w_state w) (w_devs w ! u);
        Some (r, w\<lparr>w_state := st', w_devs := (w_devs w)[u := dd']\<rparr>)
      })"
| "exec sys (Op_acquire_irq u i alloc_ok) w =
     (if u \<ge> length (w_devs w) then None
      else do {
        (r, aff', dd') \<leftarrow> hfi1_get_irq_affinity sys alloc_ok (node_affinity (w_state w)) (w_devs w ! u) i;
        Some (r, (set_registry w aff')\<lparr>w_devs := (w_devs w)[u := dd']\<rparr>)
      })"
| "exec sys (Op_release_irq u i) w =
     (if u \<ge> length (w_devs w) then None
      else do {
        (aff', dd') \<leftarrow> hfi1_put_irq_affinity sys (node_affinity (w_state w)) (w_devs w ! u) i;
        Some (0, (set_registry w aff')\<lparr>w_devs := (w_devs w)[u := dd']\<rparr>)
      })"
| "exec sys (Op_advise n proc_mask alloc_ok) w =
     do {
       (cpu, aff') \<leftarrow> hfi1_get_proc_affinity sys alloc_ok (node_affinity (w_state w)) n proc_mask;
       Some (cpu, set_registry w aff')
     }"
| "exec sys (Op_release_proc cpu) w =
     do {
       aff' \<leftarrow> hfi1_put_proc_affinity sys (node_affinity (w_state w)) cpu;
       Some (0, set_registry w aff')
     }"
| "exec sys (Op_reassign u i new_mask) w =
     (if u \<ge> length (w_devs w) then None
      else do {
        (aff', dd') \<leftarrow> hfi1_irq_notifier_notify sys (node_affinity (w_state w)) (w_devs w ! u) i new_mask;
        Some (0, (set_registry w aff')\<lparr>w_devs := (w_devs w)[u := dd']\<rparr>)
      })"

text \<open>A sequence of operations, with the values they return, in order.\<close>

fun run :: "topology \<Rightarrow> operation list \<Rightarrow> world \<Rightarrow> (int list \<times> world) option" where
  "run sys [] w = Some ([], w)"
| "run sys (op # ops) w =
     do {
       (r, w') \<leftarrow> exec sys op w;
       (rs, w'') \<leftarrow> run sys ops w';
       Some (r # rs, w'')
     }"


text \<open>
  What holds of the interrupt sets of a registry that the operations have built, beside
  the invariant: the mask holds CPU ids only, and the used set is empty only at
  generation 0 (a release that empties the used set at another generation refills it).
  The real CPU mask holds CPU ids only as well.
\<close>

definition irq_set_inv :: "int \<Rightarrow> cpu_mask_set \<Rightarrow> bool" where
  "irq_set_inv nr s =
     (cpu_mask_set_ok s \<and> cpumask_ok nr (cms_mask s) \<and> (cms_used s = {} \<longrightarrow> cms_gen s = 0))"

definition entry_inv :: "int \<Rightarrow> hfi1_affinity_node \<Rightarrow> bool" where
  "entry_inv nr e = (irq_set_inv nr (def_intr e) \<and> irq_set_inv nr (rcv_intr e))"

definition registry_inv :: "int \<Rightarrow> hfi1_affinity_node_list \<Rightarrow> bool" where
  "registry_inv nr aff =
     (cpumask_ok nr (real_cpu_mask aff) \<and> (\<forall>e\<in>set (node_list aff). entry_inv nr e))"

section \<open>The allocation protocol in the words of the specification\<close>

text \<open>
  The specification describes allocation in two steps: a pool whose used set equals its
  mask is reset (generation plus one, used set cleared), and the candidates are the CPUs
  of the mask that are not used.
\<close>

definition spec_wraparound :: "cpu_mask_set \<Rightarrow> cpu_mask_set" where
  "spec_wraparound pool =
     (if cms_used pool = cms_mask pool
      then pool\<lparr>cms_gen := cms_gen pool + 1, cms_used := {}\<rparr>
      else pool)"

definition spec_candidates :: "cpu_mask_set \<Rightarrow> cpumask" where
  "spec_candidates pool = cms_mask pool - cms_used pool"

section \<open>Example configurations\<close>

text \<open>
  A host with 16 CPU ids, all online, no hyperthreading and two nodes: node 0 owns the
  CPUs 2, 4, 6 and 8, node 1 owns CPU 5. One device sits on each node.
\<close>

definition ex_topology :: topology where
  "ex_topology =
     \<lparr>nr_cpu_ids = 16,
      cpu_online_mask = {0..<16},
      cpumask_of_node = (\<lambda>n. if n = 0 then {2, 4, 6, 8} else if n = 1 then {5} else {}),
      cpu_sibling_mask = (\<lambda>c. {c}),
      topology_core_cpumask = (\<lambda>c. {0..<16}),
      topo_possible_nodes = 2,
      topo_online_nodes = 2,
      numa_node_id = 0,
      pci_dev_nodes = [0, 1],
      HFI1_CTRL_CTXT = 0\<rparr>"

text \<open>The global state right after \<^verbatim>\<open>node_affinity_init\<close> on that host.\<close>

definition ex_state :: affinity_state where
  "ex_state =
     \<lparr>node_affinity =
        \<lparr>node_list = [],
         real_cpu_mask = {0..<16},
         proc = \<lparr>cms_mask = {0..<16}, cms_used = {}, cms_gen = 0\<rparr>,
         num_core_siblings = 1,
         num_possible_nodes = 2,
         num_online_nodes = 2,
         num_online_cpus = 16\<rparr>,
      hfi1_per_node_cntr = [1, 1]\<rparr>"

text \<open>
  A device on the bus of node \<open>n\<close> with two kernel receive queues, a general vector, the
  vectors of two DMA engines and of the receive contexts 0 (control) and 1. Its node is
  not set before the device attaches.
\<close>

definition ex_device :: "int \<Rightarrow> hfi1_devdata" where
  "ex_device n =
     \<lparr>pcibus_node = n,
      dd_node = - 1,
      n_krcv_queues = 2,
      msix_entries =
        [\<lparr>msix_type = IRQ_GENERAL, msix_arg = Arg_none, msix_mask = {}, msix_hint = False\<rparr>,
         \<lparr>msix_type = IRQ_SDMA, msix_arg = Arg_sde 0, msix_mask = {}, msix_hint = False\<rparr>,
         \<lparr>msix_type = IRQ_SDMA, msix_arg = Arg_sde 1, msix_mask = {}, msix_hint = False\<rparr>,
         \<lparr>msix_type = IRQ_RCVCTXT, msix_arg = Arg_rcd 0, msix_mask = {}, msix_hint = False\<rparr>,
         \<lparr>msix_type = IRQ_RCVCTXT, msix_arg = Arg_rcd 1, msix_mask = {}, msix_hint = False\<rparr>],
      per_sdma = [\<lparr>sde_cpu = 0\<rparr>, \<lparr>sde_cpu = 0\<rparr>]\<rparr>"

text \<open>
  The device of node 0 after attach, with both DMA vectors steered to CPU 6 (the second
  one after a wraparound of the default set), and the registry in that situation.
\<close>

definition ex_device_busy :: hfi1_devdata where
  "ex_device_busy =
     \<lparr>pcibus_node = 0,
      dd_node = 0,
      n_krcv_queues = 2,
      msix_entries =
        [\<lparr>msix_type = IRQ_GENERAL, msix_arg = Arg_none, msix_mask = {}, msix_hint = False\<rparr>,
         \<lparr>msix_type = IRQ_SDMA, msix_arg = Arg_sde 0, msix_mask = {6}, msix_hint = True\<rparr>,
         \<lparr>msix_type = IRQ_SDMA, msix_arg = Arg_sde 1, msix_mask = {6}, msix_hint = True\<rparr>,
         \<lparr>msix_type = IRQ_RCVCTXT, msix_arg = Arg_rcd 0, msix_mask = {}, msix_hint = False\<rparr>,
         \<lparr>msix_type = IRQ_RCVCTXT, msix_arg = Arg_rcd 1, msix_mask = {}, msix_hint = False\<rparr>],
      per_sdma = [\<lparr>sde_cpu = 6\<rparr>, \<lparr>sde_cpu = 6\<rparr>]\<rparr>"

definition ex_registry_busy :: hfi1_affinity_node_list where
  "ex_registry_busy =
     (node_affinity ex_state)
       \<lparr>node_list :=
          [\<lparr>node = 0,
            def_intr = \<lparr>cms_mask = {6, 8}, cms_used = {6}, cms_gen = 1\<rparr>,
            rcv_intr = \<lparr>cms_mask = {4}, cms_used = {}, cms_gen = 0\<rparr>,
            general_intr_mask = {2}\<rparr>]\<rparr>"

text \<open>
  A host with 6 CPU ids of which the CPUs 3 and 4 are offline, one node, and a device
  whose only DMA vector is steered to CPU 1.
\<close>

definition ex_topology_sparse :: topology where
  "ex_topology_sparse =
     \<lparr>nr_cpu_ids = 6,
      cpu_online_mask = {0, 1, 2, 5},
      cpumask_of_node = (\<lambda>n. if n = 0 then {0, 1, 2, 5} else {}),
      cpu_sibling_mask = (\<lambda>c. {c}),
      topology_core_cpumask = (\<lambda>c. {0, 1, 2, 5}),
      topo_possible_nodes = 1,
      topo_online_nodes = 1,
      numa_node_id = 0,
      pci_dev_nodes = [0],
      HFI1_CTRL_CTXT = 0\<rparr>"

definition ex_registry_sparse :: hfi1_affinity_node_list where
  "ex_registry_sparse =
     \<lparr>node_list =
        [\<lparr>node = 0,
          def_intr = \<lparr>cms_mask = {2, 5}, cms_used = {2}, cms_gen = 0\<rparr>,
          rcv_intr = \<lparr>cms_mask = {1}, cms_used = {}, cms_gen = 0\<rparr>,
          general_intr_mask = {0}\<rparr>],
      real_cpu_mask = {0, 1, 2, 5},
      proc = \<lparr>cms_mask = {0, 1, 2, 5}, cms_used = {}, cms_gen = 0\<rparr>,
      num_core_siblings = 1,
      num_possible_nodes = 1,
      num_online_nodes = 1,
      num_online_cpus = 4\<rparr>"

definition ex_device_sparse :: hfi1_devdata where
  "ex_device_sparse =
     \<lparr>pcibus_node = 0,
      dd_node = 0,
      n_krcv_queues = 2,
      msix_entries =
        [\<lparr>msix_type = IRQ_SDMA, msix_arg = Arg_sde 0, msix_mask = {2}, msix_hint = True\<rparr>],
      per_sdma = [\<lparr>sde_cpu = 2\<rparr>]\<rparr>"

text \<open>
  A host with 8 CPU ids, all online, no hyperthreading and two nodes of 4 CPUs each; the
  registry right after \<^verbatim>\<open>node_affinity_init\<close>, before any device attaches.
\<close>

definition ex_topology8 :: topology where
  "ex_topology8 =
     \<lparr>nr_cpu_ids = 8,
      cpu_online_mask = {0, 1, 2, 3, 4, 5, 6, 7},
      cpumask_of_node = (\<lambda>n. if n = 0 then {0, 1, 2, 3} else if n = 1 then {4, 5, 6, 7} else {}),
      cpu_sibling_mask = (\<lambda>c. {c}),
      topology_core_cpumask = (\<lambda>c. if c < 4 then {0, 1, 2, 3} else {4, 5, 6, 7}),
      topo_possible_nodes = 2,
      topo_online_nodes = 2,
      numa_node_id = 0,
      pci_dev_nodes = [0],
      HFI1_CTRL_CTXT = 0\<rparr>"

definition ex_registry8 :: hfi1_affinity_node_list where
  "ex_registry8 =
     \<lparr>node_list = [],
      real_cpu_mask = {0, 1, 2, 3, 4, 5, 6, 7},
      proc = \<lparr>cms_mask = {0, 1, 2, 3, 4, 5, 6, 7}, cms_used = {}, cms_gen = 0\<rparr>,
      num_core_siblings = 1,
      num_possible_nodes = 2,
      num_online_nodes = 2,
      num_online_cpus = 8\<rparr>"

text \<open>The global state at load time, before \<^verbatim>\<open>node_affinity_init\<close>.\<close>

definition ex_state0 :: affinity_state where
  "ex_state0 =
     \<lparr>node_affinity =
        \<lparr>node_list = [],
         real_cpu_mask = {},
         proc = init_cpu_mask_set,
         num_core_siblings = 0,
         num_possible_nodes = 0,
         num_online_nodes = 0,
         num_online_cpus = 0\<rparr>,
      hfi1_per_node_cntr = []\<rparr>"




text \<open>
  A device on the bus of node 0 with two kernel receive queues and five DMA engines, the
  vector \<open>i\<close> being the vector of engine \<open>i\<close>. On the 16-CPU host it attaches, takes its
  five DMA vectors, and the vector 1 is then moved to CPU 4.
\<close>

definition ex_device5 :: hfi1_devdata where
  "ex_device5 =
     \<lparr>pcibus_node = 0,
      dd_node = - 1,
      n_krcv_queues = 2,
      msix_entries =
        [\<lparr>msix_type = IRQ_SDMA, msix_arg = Arg_sde 0, msix_mask = {}, msix_hint = False\<rparr>,
         \<lparr>msix_type = IRQ_SDMA, msix_arg = Arg_sde 1, msix_mask = {}, msix_hint = False\<rparr>,
         \<lparr>msix_type = IRQ_SDMA, msix_arg = Arg_sde 2, msix_mask = {}, msix_hint = False\<rparr>,
         \<lparr>msix_type = IRQ_SDMA, msix_arg = Arg_sde 3, msix_mask = {}, msix_hint = False\<rparr>,
         \<lparr>msix_type = IRQ_SDMA, msix_arg = Arg_sde 4, msix_mask = {}, msix_hint = False\<rparr>],
      per_sdma = [\<lparr>sde_cpu = 0\<rparr>, \<lparr>sde_cpu = 0\<rparr>, \<lparr>sde_cpu = 0\<rparr>, \<lparr>sde_cpu = 0\<rparr>, \<lparr>sde_cpu = 0\<rparr>]\<rparr>"

definition ex_ops5 :: "operation list" where
  "ex_ops5 =
     [Op_attach 0 True,
      Op_acquire_irq 0 0 True, Op_acquire_irq 0 1 True, Op_acquire_irq 0 2 True,
      Op_acquire_irq 0 3 True, Op_acquire_irq 0 4 True]"

section \<open>Reassignment in the words of the specification\<close>

text \<open>
  Another DMA vector of the same device (not the vector \<open>i\<close>) still targets the CPU: the
  CPU is in that vector's effective mask.
\<close>

definition other_sdma_targets :: "hfi1_devdata \<Rightarrow> nat \<Rightarrow> int \<Rightarrow> bool" where
  "other_sdma_targets dd i cpu =
     (\<exists>j\<in>{0..<length (msix_entries dd)}.
        j \<noteq> i \<and> msix_type (msix_entries dd ! j) = IRQ_SDMA \<and> cpu \<in> msix_mask (msix_entries dd ! j))"

section \<open>Observations of a run\<close>


definition sdma_view :: "world \<Rightarrow> cpu_mask_set \<times> cpumask list \<times> int list" where
  "sdma_view w =
     (def_intr (node_list (node_affinity (w_state w)) ! 0),
      map msix_mask (msix_entries (w_devs w ! 0)),
      map sde_cpu (per_sdma (w_devs w ! 0)))"

definition old_cpu_view :: "nat \<Rightarrow> int \<Rightarrow> world \<Rightarrow> bool \<times> bool \<times> bool" where
  "old_cpu_view i cpu w =
     (other_sdma_targets (w_devs w ! 0) i cpu,
      cpu \<in> cms_mask (def_intr (node_list (node_affinity (w_state w)) ! 0)),
      cpu \<in> cms_used (def_intr (node_list (node_affinity (w_state w)) ! 0)))"

section \<open>Properties of the CPU mask primitives\<close>

lemma cpumask_ok_finite: "cpumask_ok nr m \<Longrightarrow> finite m"
  unfolding cpumask_ok_def by (rule finite_subset[where B="{0..<nr}"]) auto

lemma cpumask_first_in:
  assumes "cpumask_ok nr m" "m \<noteq> {}"
  shows "cpumask_first nr m \<in> m" "0 \<le> cpumask_first nr m" "cpumask_first nr m < nr"
    "\<forall>c\<in>m. cpumask_first nr m \<le> c"
proof -
  have fin: "finite m" using assms(1) by (rule cpumask_ok_finite)
  have eq: "cpumask_first nr m = Min m" using assms(2) by (simp add: cpumask_first_def)
  show a: "cpumask_first nr m \<in> m" unfolding eq using fin assms(2) by (rule Min_in)
  from a assms(1) show "0 \<le> cpumask_first nr m" "cpumask_first nr m < nr"
    unfolding cpumask_ok_def by auto
  show "\<forall>c\<in>m. cpumask_first nr m \<le> c" unfolding eq using fin by simp
qed

section \<open>Allocation from a set and release\<close>

text \<open>
  On a set that keeps the invariant and has a CPU, allocation never leaves the mask: it
  returns the first unused CPU after the reset, if one was due.
\<close>

lemma get_irq_affinity_set_result:
  assumes ok: "cpumask_ok nr (cms_mask p)"
    and ne: "cms_mask p \<noteq> {}"
    and inv: "cms_used p \<subseteq> cms_mask p"
  defines "p1 \<equiv> (if cms_mask p = cms_used p then p\<lparr>cms_gen := cms_gen p + 1, cms_used := {}\<rparr> else p)"
  defines "c \<equiv> cpumask_first nr (cms_mask p1 - cms_used p1)"
  shows "get_irq_affinity_set nr p = Some (c, p1\<lparr>cms_used := insert c (cms_used p1)\<rparr>)"
    and "c \<in> cms_mask p1 - cms_used p1"
    and "\<forall>c'\<in>cms_mask p1 - cms_used p1. c \<le> c'"
proof -
  have m1: "cms_mask p1 = cms_mask p" by (simp add: p1_def)
  have ne1: "cms_mask p1 - cms_used p1 \<noteq> {}"
    using ne inv by (auto simp: p1_def)
  have ok1: "cpumask_ok nr (cms_mask p1 - cms_used p1)"
    using ok unfolding cpumask_ok_def m1 by auto
  note f = cpumask_first_in[OF ok1 ne1]
  show "c \<in> cms_mask p1 - cms_used p1" unfolding c_def by (rule f(1))
  show "\<forall>c'\<in>cms_mask p1 - cms_used p1. c \<le> c'" unfolding c_def by (rule f(4))
  have "cpumask_set_cpu nr c (cms_used p1) = Some (insert c (cms_used p1))"
    using f(2,3) by (simp add: cpumask_set_cpu_def c_def)
  then show "get_irq_affinity_set nr p = Some (c, p1\<lparr>cms_used := insert c (cms_used p1)\<rparr>)"
    by (simp add: get_irq_affinity_set_def Let_def p1_def c_def)
qed

text \<open>
  Claim C2. For every pool that has a CPU in its mask (a pool keeps its used CPUs inside
  its mask, and its mask inside the CPU ids), allocation is exactly: reset the pool when
  its used set equals its mask (generation plus one, used set cleared); then the CPU
  returned is a candidate (in the mask, not used), no candidate has a lower number, and
  the only change left is that this CPU is marked used.
\<close>

theorem C2_allocate_lowest_candidate:
  assumes "cpumask_ok nr (cms_mask pool)"
    and "cms_mask pool \<noteq> {}"
    and "cpu_mask_set_ok pool"
  shows "\<exists>cpu. get_irq_affinity_set nr pool =
                 Some (cpu, (spec_wraparound pool)\<lparr>cms_used := insert cpu (cms_used (spec_wraparound pool))\<rparr>)
             \<and> cpu \<in> spec_candidates (spec_wraparound pool)
             \<and> (\<forall>c\<in>spec_candidates (spec_wraparound pool). cpu \<le> c)"
proof -
  have w: "spec_wraparound pool =
      (if cms_mask pool = cms_used pool then pool\<lparr>cms_gen := cms_gen pool + 1, cms_used := {}\<rparr> else pool)"
    by (auto simp: spec_wraparound_def)
  from assms(3) have inv: "cms_used pool \<subseteq> cms_mask pool" by (simp add: cpu_mask_set_ok_def)
  note r = get_irq_affinity_set_result[OF assms(1,2) inv, folded w spec_candidates_def]
  show ?thesis using r by blast
qed

theorem C2_allocate_lowest_candidate_witness:
  "get_irq_affinity_set 8 \<lparr>cms_mask = {2, 6}, cms_used = {2, 6}, cms_gen = 0\<rparr> =
     Some (2, \<lparr>cms_mask = {2, 6}, cms_used = {2}, cms_gen = 1\<rparr>)"
proof -
  let ?p = "\<lparr>cms_mask = {2, 6}, cms_used = {2, 6}, cms_gen = 0\<rparr>"
  have h1: "cpumask_ok 8 (cms_mask ?p)" by (simp add: cpumask_ok_def)
  have h2: "cms_mask ?p \<noteq> {}" by simp
  have h3: "cpu_mask_set_ok ?p" by (simp add: cpu_mask_set_ok_def)
  from C2_allocate_lowest_candidate[OF h1 h2 h3] obtain cpu where
    g: "get_irq_affinity_set 8 ?p =
          Some (cpu, (spec_wraparound ?p)\<lparr>cms_used := insert cpu (cms_used (spec_wraparound ?p))\<rparr>)"
    and m: "cpu \<in> spec_candidates (spec_wraparound ?p)"
    and l: "\<forall>c\<in>spec_candidates (spec_wraparound ?p). cpu \<le> c"
    by blast
  from m l have "cpu = 2" by (auto simp: spec_candidates_def spec_wraparound_def)
  with g show ?thesis by (simp add: spec_wraparound_def)
qed

text \<open>
  Allocation followed at once by the release of the CPU it returned restores a set that
  has a CPU in its mask, keeps its used CPUs in its mask, has an empty used set only at
  generation 0 and, when it is full, is below the largest generation.
\<close>

lemma get_put_irq_affinity_set_roundtrip:
  assumes ok: "cpumask_ok nr (cms_mask pool)"
    and ne: "cms_mask pool \<noteq> {}"
    and inv: "cpu_mask_set_ok pool"
    and idle: "cms_used pool = {} \<longrightarrow> cms_gen pool = 0"
    and top: "cms_used pool = cms_mask pool \<longrightarrow> cms_gen pool \<noteq> - 1"
  shows "\<exists>cpu pool'. get_irq_affinity_set nr pool = Some (cpu, pool')
                    \<and> put_irq_affinity_set {cpu} pool' = pool"
proof -
  from inv have sub: "cms_used pool \<subseteq> cms_mask pool" by (simp add: cpu_mask_set_ok_def)
  define p1 where "p1 = (if cms_mask pool = cms_used pool
                         then pool\<lparr>cms_gen := cms_gen pool + 1, cms_used := {}\<rparr> else pool)"
  define c where "c = cpumask_first nr (cms_mask p1 - cms_used p1)"
  note r = get_irq_affinity_set_result[OF ok ne sub, folded p1_def c_def]
  have "put_irq_affinity_set {c} (p1\<lparr>cms_used := insert c (cms_used p1)\<rparr>) = pool"
  proof (cases "cms_mask pool = cms_used pool")
    case True
    with top have "cms_gen pool + 1 \<noteq> 0"
      by (metis add.commute add.right_inverse add_diff_cancel_left' diff_0)
    with True show ?thesis by (simp add: put_irq_affinity_set_def p1_def)
  next
    case False
    then have p1: "p1 = pool" by (simp add: p1_def)
    from r(2) have "c \<notin> cms_used pool" by (simp add: p1)
    then have d: "insert c (cms_used pool) - {c} = cms_used pool" by auto
    show ?thesis using idle by (auto simp add: put_irq_affinity_set_def p1 d)
  qed
  with r(1) show ?thesis by blast
qed

text \<open>
  From a set that keeps the invariant, \<open>n\<close> allocations with at least \<open>n\<close> unused CPUs
  return \<open>n\<close> different unused CPUs and only mark them used.
\<close>

lemma get_irq_affinity_set_n_fresh:
  assumes "cpumask_ok nr (cms_mask p)"
    and "cms_used p \<subseteq> cms_mask p"
    and "n \<le> card (cms_mask p - cms_used p)"
  shows "\<exists>cpus. get_irq_affinity_set_n nr n p = Some (cpus, p\<lparr>cms_used := cms_used p \<union> set cpus\<rparr>)
            \<and> length cpus = n \<and> distinct cpus \<and> set cpus \<subseteq> cms_mask p - cms_used p"
  using assms
proof (induction n arbitrary: p)
  case 0
  then show ?case by simp
next
  case (Suc n)
  have fin: "finite (cms_mask p)" using Suc.prems(1) by (rule cpumask_ok_finite)
  from Suc.prems(3) have "card (cms_mask p - cms_used p) \<noteq> 0" by simp
  then have ne: "cms_mask p - cms_used p \<noteq> {}" by (metis card.empty)
  then have ne_mask: "cms_mask p \<noteq> {}" and neq: "cms_mask p \<noteq> cms_used p" by auto
  define c where "c = cpumask_first nr (cms_mask p - cms_used p)"
  note r = get_irq_affinity_set_result[OF Suc.prems(1) ne_mask Suc.prems(2)]
  from r(1) neq have g: "get_irq_affinity_set nr p = Some (c, p\<lparr>cms_used := insert c (cms_used p)\<rparr>)"
    by (simp add: c_def)
  from r(2) neq have cin: "c \<in> cms_mask p - cms_used p" by (simp add: c_def)
  let ?s = "p\<lparr>cms_used := insert c (cms_used p)\<rparr>"
  have d: "cms_mask ?s - cms_used ?s = (cms_mask p - cms_used p) - {c}" by auto
  have "card (cms_mask ?s - cms_used ?s) = card (cms_mask p - cms_used p) - 1"
    unfolding d using cin fin by (simp add: card_Diff_singleton)
  with Suc.prems(3) have n: "n \<le> card (cms_mask ?s - cms_used ?s)" by simp
  have ok': "cpumask_ok nr (cms_mask ?s)" using Suc.prems(1) by simp
  have inv': "cms_used ?s \<subseteq> cms_mask ?s" using Suc.prems(2) cin by auto
  from Suc.IH[OF ok' inv' n] obtain cs where
    gn: "get_irq_affinity_set_n nr n ?s = Some (cs, ?s\<lparr>cms_used := cms_used ?s \<union> set cs\<rparr>)"
    and len: "length cs = n" and dist: "distinct cs"
    and sub: "set cs \<subseteq> cms_mask ?s - cms_used ?s"
    by blast
  have "get_irq_affinity_set_n nr (Suc n) p = Some (c # cs, p\<lparr>cms_used := cms_used p \<union> set (c # cs)\<rparr>)"
    using g gn by simp
  moreover have "distinct (c # cs)" using dist sub by auto
  moreover have "set (c # cs) \<subseteq> cms_mask p - cms_used p" using sub cin by auto
  ultimately show ?case using len by (intro exI[where x="c # cs"]) simp
qed

text \<open>
  Claim C4. For every pool whose mask has exactly \<open>k\<close> CPUs (at least one, all of them
  CPU ids) and whose used set is empty, \<open>k\<close> allocations in a row return \<open>k\<close> pairwise
  different CPUs (the CPUs of the mask) and leave the generation as it was; the next
  allocation returns a CPU and adds exactly 1 to the generation (a 32-bit counter).
\<close>

theorem C4_exhaustion:
  assumes ok: "cpumask_ok nr (cms_mask pool)"
    and k: "card (cms_mask pool) = k"
    and pos: "0 < k"
    and fresh: "cms_used pool = {}"
  shows "\<exists>cpus pool'. get_irq_affinity_set_n nr k pool = Some (cpus, pool')
           \<and> length cpus = k \<and> distinct cpus \<and> set cpus = cms_mask pool
           \<and> cms_gen pool' = cms_gen pool
           \<and> (\<exists>cpu pool''. get_irq_affinity_set nr pool' = Some (cpu, pool'')
                 \<and> cms_gen pool'' = cms_gen pool + 1)"
proof -
  have fin: "finite (cms_mask pool)" using ok by (rule cpumask_ok_finite)
  have inv: "cms_used pool \<subseteq> cms_mask pool" using fresh by simp
  have le: "k \<le> card (cms_mask pool - cms_used pool)" using k fresh by simp
  from get_irq_affinity_set_n_fresh[OF ok inv le] obtain cpus where
    gn: "get_irq_affinity_set_n nr k pool = Some (cpus, pool\<lparr>cms_used := cms_used pool \<union> set cpus\<rparr>)"
    and len: "length cpus = k" and dist: "distinct cpus"
    and sub: "set cpus \<subseteq> cms_mask pool - cms_used pool"
    by blast
  have "card (set cpus) = card (cms_mask pool)" using dist len k by (simp add: distinct_card)
  with sub fin have full: "set cpus = cms_mask pool"
    by (metis Diff_subset card_subset_eq subset_trans)
  let ?p = "pool\<lparr>cms_used := cms_used pool \<union> set cpus\<rparr>"
  have used: "cms_used ?p = cms_mask ?p" using full fresh by simp
  have ne: "cms_mask ?p \<noteq> {}" using pos k by auto
  have ok': "cpumask_ok nr (cms_mask ?p)" using ok by simp
  have inv': "cms_used ?p \<subseteq> cms_mask ?p" using used by simp
  note r = get_irq_affinity_set_result[OF ok' ne inv']
  from r(1) used have "\<exists>cpu pool''. get_irq_affinity_set nr ?p = Some (cpu, pool'')
                 \<and> cms_gen pool'' = cms_gen pool + 1"
    by simp
  with gn len dist full show ?thesis by simp
qed

theorem C4_exhaustion_witness:
  "get_irq_affinity_set_n 8 2 \<lparr>cms_mask = {2, 6}, cms_used = {}, cms_gen = 5\<rparr>
     = Some ([2, 6], \<lparr>cms_mask = {2, 6}, cms_used = {2, 6}, cms_gen = 5\<rparr>)
   \<and> get_irq_affinity_set 8 \<lparr>cms_mask = {2, 6}, cms_used = {2, 6}, cms_gen = 5\<rparr>
     = Some (2, \<lparr>cms_mask = {2, 6}, cms_used = {2}, cms_gen = 6\<rparr>)"
proof -
  let ?p = "\<lparr>cms_mask = {2, 6}, cms_used = {}, cms_gen = 5\<rparr> :: cpu_mask_set"
  have h1: "cpumask_ok 8 (cms_mask ?p)" by (simp add: cpumask_ok_def)
  have h2: "card (cms_mask ?p) = 2" by simp
  have h3: "0 < (2::nat)" by simp
  have h4: "cms_used ?p = {}" by simp
  from C4_exhaustion[OF h1 h2 h3 h4] obtain cpus pool' where
    gn: "get_irq_affinity_set_n 8 2 ?p = Some (cpus, pool')"
    and "length cpus = 2" "distinct cpus" "cms_gen pool' = cms_gen ?p"
    by blast
  have e: "get_irq_affinity_set_n 8 2 ?p = Some ([2, 6], \<lparr>cms_mask = {2, 6}, cms_used = {2, 6}, cms_gen = 5\<rparr>)"
    by code_simp
  have e2: "get_irq_affinity_set 8 \<lparr>cms_mask = {2, 6}, cms_used = {2, 6}, cms_gen = 5\<rparr>
     = Some (2, \<lparr>cms_mask = {2, 6}, cms_used = {2}, cms_gen = 6\<rparr>)"
    by code_simp
  from gn e e2 show ?thesis by simp
qed

section \<open>Device attach\<close>

lemma cpumask_first_eq:
  assumes "finite m" "c \<in> m" "\<forall>c'\<in>m. c \<le> c'"
  shows "cpumask_first nr m = c"
proof -
  from assms(2) have "m \<noteq> {}" by auto
  moreover have "Min m = c" using assms by (intro Min_eqI) auto
  ultimately show ?thesis by (simp add: cpumask_first_def)
qed

lemma cpumask_next_eq:
  assumes "finite m" "c \<in> m" "n < c" "\<forall>c'\<in>m. n < c' \<longrightarrow> c \<le> c'"
  shows "cpumask_next nr n m = c"
  unfolding cpumask_next_def using assms by (intro cpumask_first_eq) auto

lemma new_affinity_node_example:
  assumes nr: "8 < nr"
    and cnt: "per_node_cntr_get cntr n = Some 1"
  shows "new_affinity_node nr cntr 2 n {2, 4, 6, 8} =
     Some \<lparr>node = n,
           def_intr = \<lparr>cms_mask = {6, 8}, cms_used = {}, cms_gen = 0\<rparr>,
           rcv_intr = \<lparr>cms_mask = {4}, cms_used = {}, cms_gen = 0\<rparr>,
           general_intr_mask = {2}\<rparr>"
proof -
  have f: "cpumask_first nr {2, 4, 6, 8} = 2" by (rule cpumask_first_eq) auto
  have n1: "cpumask_next nr 2 {4, 6, 8} = 4" by (rule cpumask_next_eq) auto
  have n2: "cpumask_next nr 4 {6, 8} = 6" by (rule cpumask_next_eq) auto
  have b: "rcv_loop_bound 2 (Suc 0) = Suc 0" by (simp add: rcv_loop_bound_def)
  have d1: "{2, 4, 6, 8} - {2::int} = {4, 6, 8}" by auto
  have d2: "{4, 6, 8} - {4::int} = {6, 8}" by auto
  show ?thesis
    using nr
    by (simp add: new_affinity_node_def cpumask_weight_def f cpumask_clear_cpu_def
        cpumask_set_cpu_def d1 d2 n1 n2 cnt b Let_def init_cpu_mask_set_def)
qed

text \<open>
  Claim C5. When a device attaches on a node that has no entry yet, the node's candidate
  mask (the real CPUs local to the node) is \<open>{2, 4, 6, 8}\<close>, the device has 2 kernel
  receive queues and one device is counted on the node, the attach succeeds and appends
  an entry whose general mask is \<open>{2}\<close>, whose receive set has the mask \<open>{4}\<close> and whose
  default set has the mask \<open>{6, 8}\<close>, both sets unused at generation 0.
\<close>

theorem C5_attach_example:
  assumes nr: "8 < nr_cpu_ids sys"
    and first: "node_affinity_lookup (node_list (node_affinity st)) (dev_node sys dd) = None"
    and cand: "real_cpu_mask (node_affinity st) \<inter> dev_local_mask sys (dev_node sys dd) = {2, 4, 6, 8}"
    and krcv: "n_krcv_queues dd = 2"
    and cnt: "per_node_cntr_get (hfi1_per_node_cntr st) (dev_node sys dd) = Some 1"
  shows "hfi1_dev_affinity_init sys True st dd =
     Some (0,
           st\<lparr>node_affinity := (node_affinity st)\<lparr>node_list := node_list (node_affinity st) @
              [\<lparr>node = dev_node sys dd,
                def_intr = \<lparr>cms_mask = {6, 8}, cms_used = {}, cms_gen = 0\<rparr>,
                rcv_intr = \<lparr>cms_mask = {4}, cms_used = {}, cms_gen = 0\<rparr>,
                general_intr_mask = {2}\<rparr>]\<rparr>\<rparr>,
           dd\<lparr>dd_node := dev_node sys dd\<rparr>)"
  by (simp add: hfi1_dev_affinity_init_def Let_def first cand krcv new_affinity_node_example[OF nr cnt])

theorem C5_attach_example_witness:
  "hfi1_dev_affinity_init ex_topology True ex_state (ex_device 0) =
     Some (0,
           ex_state\<lparr>node_affinity := (node_affinity ex_state)\<lparr>node_list :=
              [\<lparr>node = 0,
                def_intr = \<lparr>cms_mask = {6, 8}, cms_used = {}, cms_gen = 0\<rparr>,
                rcv_intr = \<lparr>cms_mask = {4}, cms_used = {}, cms_gen = 0\<rparr>,
                general_intr_mask = {2}\<rparr>]\<rparr>\<rparr>,
           (ex_device 0)\<lparr>dd_node := 0\<rparr>)"
proof -
  have n: "dev_node ex_topology (ex_device 0) = 0"
    by (simp add: dev_node_def ex_device_def)
  have h1: "8 < nr_cpu_ids ex_topology" by (simp add: ex_topology_def)
  have h2: "node_affinity_lookup (node_list (node_affinity ex_state)) (dev_node ex_topology (ex_device 0)) = None"
    by (simp add: ex_state_def)
  have h3: "real_cpu_mask (node_affinity ex_state) \<inter> dev_local_mask ex_topology (dev_node ex_topology (ex_device 0))
              = {2, 4, 6, 8}"
    unfolding n by code_simp
  have h4: "n_krcv_queues (ex_device 0) = 2" by (simp add: ex_device_def)
  have h5: "per_node_cntr_get (hfi1_per_node_cntr ex_state) (dev_node ex_topology (ex_device 0)) = Some 1"
    unfolding n by (simp add: per_node_cntr_get_def ex_state_def)
  have l: "node_list (node_affinity ex_state) = []" by (simp add: ex_state_def)
  show ?thesis using C5_attach_example[OF h1 h2 h3 h4 h5] by (simp add: n l)
qed

lemma new_affinity_node_single:
  assumes "0 \<le> c" "c < nr"
  shows "new_affinity_node nr cntr krcv n {c} =
     Some \<lparr>node = n,
           def_intr = \<lparr>cms_mask = {c}, cms_used = {}, cms_gen = 0\<rparr>,
           rcv_intr = \<lparr>cms_mask = {c}, cms_used = {}, cms_gen = 0\<rparr>,
           general_intr_mask = {c}\<rparr>"
  using assms
  by (simp add: new_affinity_node_def cpumask_weight_def cpumask_first_def cpumask_set_cpu_def
      init_cpu_mask_set_def)

text \<open>
  Claim C6. When a device attaches on a node that has no entry yet and the node's
  candidate mask holds exactly one CPU, the attach succeeds and appends an entry whose
  general mask, receive-set mask and default-set mask are all the singleton of that CPU.
\<close>

theorem C6_attach_single_cpu:
  assumes c: "0 \<le> c" "c < nr_cpu_ids sys"
    and first: "node_affinity_lookup (node_list (node_affinity st)) (dev_node sys dd) = None"
    and cand: "real_cpu_mask (node_affinity st) \<inter> dev_local_mask sys (dev_node sys dd) = {c}"
  shows "hfi1_dev_affinity_init sys True st dd =
     Some (0,
           st\<lparr>node_affinity := (node_affinity st)\<lparr>node_list := node_list (node_affinity st) @
              [\<lparr>node = dev_node sys dd,
                def_intr = \<lparr>cms_mask = {c}, cms_used = {}, cms_gen = 0\<rparr>,
                rcv_intr = \<lparr>cms_mask = {c}, cms_used = {}, cms_gen = 0\<rparr>,
                general_intr_mask = {c}\<rparr>]\<rparr>\<rparr>,
           dd\<lparr>dd_node := dev_node sys dd\<rparr>)"
  by (simp add: hfi1_dev_affinity_init_def Let_def first cand new_affinity_node_single[OF c])

theorem C6_attach_single_cpu_witness:
  "hfi1_dev_affinity_init ex_topology True ex_state (ex_device 1) =
     Some (0,
           ex_state\<lparr>node_affinity := (node_affinity ex_state)\<lparr>node_list :=
              [\<lparr>node = 1,
                def_intr = \<lparr>cms_mask = {5}, cms_used = {}, cms_gen = 0\<rparr>,
                rcv_intr = \<lparr>cms_mask = {5}, cms_used = {}, cms_gen = 0\<rparr>,
                general_intr_mask = {5}\<rparr>]\<rparr>\<rparr>,
           (ex_device 1)\<lparr>dd_node := 1\<rparr>)"
proof -
  have n: "dev_node ex_topology (ex_device 1) = 1"
    by (simp add: dev_node_def ex_device_def)
  have h1: "(0::int) \<le> 5" by simp
  have h2: "5 < nr_cpu_ids ex_topology" by (simp add: ex_topology_def)
  have h3: "node_affinity_lookup (node_list (node_affinity ex_state)) (dev_node ex_topology (ex_device 1)) = None"
    by (simp add: ex_state_def)
  have h4: "real_cpu_mask (node_affinity ex_state) \<inter> dev_local_mask ex_topology (dev_node ex_topology (ex_device 1))
              = {5}"
    unfolding n by code_simp
  have l: "node_list (node_affinity ex_state) = []" by (simp add: ex_state_def)
  show ?thesis using C6_attach_single_cpu[OF h1 h2 h3 h4] by (simp add: n l)
qed

section \<open>External reassignment of a DMA vector\<close>

lemma node_affinity_lookup_Some:
  "node_affinity_lookup es n = Some p \<Longrightarrow> p < length es \<and> node (es ! p) = n"
proof (induction es arbitrary: p)
  case Nil
  then show ?case by simp
next
  case (Cons e es)
  show ?case
  proof (cases "node e = n")
    case True
    with Cons.prems show ?thesis by simp
  next
    case False
    with Cons.prems obtain q where q: "node_affinity_lookup es n = Some q" and p: "p = Suc q"
      by auto
    from Cons.IH[OF q] p show ?thesis by simp
  qed
qed

text \<open>The scan finds exactly whether a DMA vector at another position holds the CPU.\<close>

lemma other_sdma_uses_eq:
  assumes "0 \<le> old_cpu" "old_cpu < nr"
  shows "other_sdma_uses nr old_cpu i j xs =
           Some (\<exists>m\<in>{0..<length xs}. j + m \<noteq> i \<and> msix_type (xs ! m) = IRQ_SDMA \<and> old_cpu \<in> msix_mask (xs ! m))"
proof (induction xs arbitrary: j)
  case Nil
  then show ?case by simp
next
  case (Cons x xs)
  have split: "(\<exists>m\<in>{0..<length (x # xs)}. P m) = (P 0 \<or> (\<exists>m\<in>{0..<length xs}. P (Suc m)))" for P
    by (auto simp: less_Suc_eq_0_disj)
  show ?case
    using assms by (simp only: split) (auto simp add: Cons.IH cpumask_test_cpu_def)
qed

text \<open>
  Claim C7, as stated, fails. On the 16-CPU host the device with five DMA vectors
  attaches (default set of node 0: mask \<open>{6, 8}\<close>) and takes its five vectors: they go to
  CPUs 6, 8, 6, 8, 6, and the two resets on the way leave the default set with used
  \<open>{6}\<close> at generation 2. The vectors 1 and 3 are both on CPU 8. Moving the vector 1 to
  CPU 4 is accepted; the vector 3 still targets CPU 8, and CPU 8 is in the mask of the
  default set afterwards but not in its used set.
\<close>

theorem C7_reassignment_counterexample:
  "node_affinity_init ex_topology True ex_state0 = Some (0, ex_state)
   \<and> map_option (apsnd sdma_view)
         (run ex_topology ex_ops5 \<lparr>w_state = ex_state, w_devs = [ex_device5]\<rparr>)
       = Some ([0, 0, 0, 0, 0, 0], \<lparr>cms_mask = {6, 8}, cms_used = {6}, cms_gen = 2\<rparr>,
               [{6}, {8}, {6}, {8}, {6}], [6, 8, 6, 8, 6])
   \<and> map_option (old_cpu_view 1 8 \<circ> snd)
         (run ex_topology ex_ops5 \<lparr>w_state = ex_state, w_devs = [ex_device5]\<rparr>)
       = Some (True, True, False)
   \<and> map_option (apsnd sdma_view)
         (run ex_topology (ex_ops5 @ [Op_reassign 0 1 {4}]) \<lparr>w_state = ex_state, w_devs = [ex_device5]\<rparr>)
       = Some ([0, 0, 0, 0, 0, 0, 0], \<lparr>cms_mask = {4, 6, 8}, cms_used = {4, 6}, cms_gen = 2\<rparr>,
               [{6}, {4}, {6}, {8}, {6}], [6, 4, 6, 8, 6])
   \<and> map_option (old_cpu_view 1 8 \<circ> snd)
         (run ex_topology (ex_ops5 @ [Op_reassign 0 1 {4}]) \<lparr>w_state = ex_state, w_devs = [ex_device5]\<rparr>)
       = Some (True, True, False)"
  by code_simp

text \<open>
  Claim C7, amended. A reassignment of the DMA vector \<open>i\<close> from its CPU \<open>A\<close> to a CPU \<open>B\<close>
  that the guard accepts, on a device whose node has an entry (both CPUs being CPU ids),
  completes, records \<open>B\<close> on the engine and in the vector's mask, and leaves \<open>B\<close> in the
  mask and in the used set of the node's default set. \<open>A\<close> is taken out of both sets when
  no other DMA vector of the device targets \<open>A\<close>; when one does, \<open>A\<close> is not removed: it is
  in the mask, and in the used set, exactly if it was there before. Nothing else changes
  in the two sets.
\<close>

theorem C7_reassignment:
  assumes i: "i < length (msix_entries dd)"
    and arg: "msix_arg (msix_entries dd ! i) = Arg_sde k"
    and k: "k < length (per_sdma dd)"
    and A: "sde_cpu (per_sdma dd ! k) = A"
    and entry: "node_affinity_lookup (node_list aff) (dd_node dd) = Some p"
    and inA: "0 \<le> A" "A < nr_cpu_ids sys"
    and inB: "0 \<le> B" "B < nr_cpu_ids sys"
    and acc: "\<not> uint_of_int B > num_online_cpus_now sys" "B \<noteq> A"
  shows "\<exists>aff' dd'. hfi1_update_sdma_affinity sys aff dd i B = Some (aff', dd')
      \<and> sde_cpu (per_sdma dd' ! k) = B
      \<and> msix_mask (msix_entries dd' ! i) = {B}
      \<and> B \<in> cms_mask (def_intr (node_list aff' ! p))
      \<and> B \<in> cms_used (def_intr (node_list aff' ! p))
      \<and> cms_mask (def_intr (node_list aff' ! p)) =
          (if other_sdma_targets dd i A
           then insert B (cms_mask (def_intr (node_list aff ! p)))
           else insert B (cms_mask (def_intr (node_list aff ! p))) - {A})
      \<and> cms_used (def_intr (node_list aff' ! p)) =
          (if other_sdma_targets dd i A
           then insert B (cms_used (def_intr (node_list aff ! p)))
           else insert B (cms_used (def_intr (node_list aff ! p))) - {A})
      \<and> ((A \<notin> cms_mask (def_intr (node_list aff' ! p)) \<and> A \<notin> cms_used (def_intr (node_list aff' ! p)))
           \<or> other_sdma_targets dd i A)
      \<and> (other_sdma_targets dd i A \<longrightarrow>
            (A \<in> cms_mask (def_intr (node_list aff' ! p)) \<longleftrightarrow> A \<in> cms_mask (def_intr (node_list aff ! p)))
          \<and> (A \<in> cms_used (def_intr (node_list aff' ! p)) \<longleftrightarrow> A \<in> cms_used (def_intr (node_list aff ! p))))"
proof -
  from node_affinity_lookup_Some[OF entry] have p: "p < length (node_list aff)" by simp
  let ?msix' = "(msix_entries dd ! i)\<lparr>msix_mask := {B}, msix_hint := True\<rparr>"
  let ?dd' = "dd\<lparr>per_sdma := (per_sdma dd)[k := (per_sdma dd ! k)\<lparr>sde_cpu := B\<rparr>],
                 msix_entries := (msix_entries dd)[i := ?msix']\<rparr>"
  have scan: "other_sdma_uses (nr_cpu_ids sys) A i 0 (msix_entries ?dd') = Some (other_sdma_targets dd i A)"
  proof -
    have "(\<exists>m\<in>{0..<length (msix_entries ?dd')}. 0 + m \<noteq> i \<and> msix_type (msix_entries ?dd' ! m) = IRQ_SDMA
              \<and> A \<in> msix_mask (msix_entries ?dd' ! m)) = other_sdma_targets dd i A"
      unfolding other_sdma_targets_def by (auto simp: nth_list_update)
    then show ?thesis using other_sdma_uses_eq[OF inA, of i 0 "msix_entries ?dd'"] by simp
  qed
  show ?thesis
    using i arg k A entry inA inB acc p scan
    by (auto simp add: hfi1_update_sdma_affinity_def Let_def cpumask_set_cpu_def cpumask_clear_cpu_def)
qed

theorem C7_reassignment_witness:
  "other_sdma_targets ex_device_busy 1 6
   \<and> (\<exists>aff' dd'. hfi1_update_sdma_affinity ex_topology ex_registry_busy ex_device_busy 1 4 = Some (aff', dd')
        \<and> sde_cpu (per_sdma dd' ! 0) = 4
        \<and> msix_mask (msix_entries dd' ! 1) = {4}
        \<and> cms_mask (def_intr (node_list aff' ! 0)) = {4, 6, 8}
        \<and> cms_used (def_intr (node_list aff' ! 0)) = {4, 6})"
proof -
  have t: "other_sdma_targets ex_device_busy 1 6" by code_simp
  have h1: "1 < length (msix_entries ex_device_busy)" by (simp add: ex_device_busy_def)
  have h2: "msix_arg (msix_entries ex_device_busy ! 1) = Arg_sde 0" by (simp add: ex_device_busy_def)
  have h3: "0 < length (per_sdma ex_device_busy)" by (simp add: ex_device_busy_def)
  have h4: "sde_cpu (per_sdma ex_device_busy ! 0) = 6" by (simp add: ex_device_busy_def)
  have h5: "node_affinity_lookup (node_list ex_registry_busy) (dd_node ex_device_busy) = Some 0"
    by (simp add: ex_registry_busy_def ex_device_busy_def)
  have h6: "(0::int) \<le> 6" "6 < nr_cpu_ids ex_topology" by (simp_all add: ex_topology_def)
  have h7: "(0::int) \<le> 4" "4 < nr_cpu_ids ex_topology" by (simp_all add: ex_topology_def)
  have h8: "\<not> uint_of_int 4 > num_online_cpus_now ex_topology"
    by (simp add: uint_of_int_def num_online_cpus_now_def cpumask_weight_def ex_topology_def)
  have h9: "(4::int) \<noteq> 6" by simp
  have m: "cms_mask (def_intr (node_list ex_registry_busy ! 0)) = {6, 8}"
    and u: "cms_used (def_intr (node_list ex_registry_busy ! 0)) = {6}"
    by (simp_all add: ex_registry_busy_def)
  from C7_reassignment[OF h1 h2 h3 h4 h5 h6 h7 h8 h9] t show ?thesis
    by (auto simp add: m u insert_commute)
qed

text \<open>
  Claim C10. A reassignment callback on a DMA vector of a device whose node has no entry
  in the registry changes nothing: the registry (every set of it) and the device (the CPU
  recorded on the engine, the vector's mask and its affinity hint) come back as they
  were, whatever the target CPU.
\<close>

theorem C10_no_entry_noop:
  assumes "i < length (msix_entries dd)"
    and "msix_arg (msix_entries dd ! i) = Arg_sde k"
    and "k < length (per_sdma dd)"
    and "node_affinity_lookup (node_list aff) (dd_node dd) = None"
  shows "hfi1_update_sdma_affinity sys aff dd i cpu = Some (aff, dd)
       \<and> hfi1_irq_notifier_notify sys aff dd i new_mask = Some (aff, dd)"
  using assms by (simp add: hfi1_update_sdma_affinity_def hfi1_irq_notifier_notify_def Let_def)

theorem C10_no_entry_noop_witness:
  "hfi1_update_sdma_affinity ex_topology (node_affinity ex_state) ex_device_busy 1 4
     = Some (node_affinity ex_state, ex_device_busy)
   \<and> hfi1_irq_notifier_notify ex_topology (node_affinity ex_state) ex_device_busy 1 {4, 8}
     = Some (node_affinity ex_state, ex_device_busy)"
proof -
  have h1: "1 < length (msix_entries ex_device_busy)" by (simp add: ex_device_busy_def)
  have h2: "msix_arg (msix_entries ex_device_busy ! 1) = Arg_sde 0" by (simp add: ex_device_busy_def)
  have h3: "0 < length (per_sdma ex_device_busy)" by (simp add: ex_device_busy_def)
  have h4: "node_affinity_lookup (node_list (node_affinity ex_state)) (dd_node ex_device_busy) = None"
    by (simp add: ex_state_def)
  show ?thesis by (rule C10_no_entry_noop[OF h1 h2 h3 h4])
qed

text \<open>
  Claim C8 does not hold on the code: the guard compares the target CPU with the number
  of online CPUs using \<open>>\<close>, so a target equal to that number passes. On a host whose
  online CPUs are 0, 1, 2 and 5, the target 4 is not an online CPU, yet the request is
  carried out: the engine records CPU 4, the vector's mask becomes \<open>{4}\<close>, and the default
  set of the node trades CPU 2 for CPU 4.
\<close>

theorem C8_offline_target_accepted:
  "4 \<notin> cpu_online_mask ex_topology_sparse
   \<and> sde_cpu (per_sdma ex_device_sparse ! 0) = 2
   \<and> map_option (\<lambda>(aff', dd').
        (sde_cpu (per_sdma dd' ! 0), msix_mask (msix_entries dd' ! 0), def_intr (node_list aff' ! 0)))
       (hfi1_update_sdma_affinity ex_topology_sparse ex_registry_sparse ex_device_sparse 0 4)
     = Some (4, {4}, \<lparr>cms_mask = {4, 5}, cms_used = {4}, cms_gen = 0\<rparr>)"
  by code_simp

text \<open>
  What the guard does reject: a target above the number of online CPUs (as an unsigned
  number) and the CPU the engine already has. Such a request changes nothing.
\<close>

lemma hfi1_update_sdma_affinity_rejected:
  assumes "i < length (msix_entries dd)"
    and "msix_arg (msix_entries dd ! i) = Arg_sde k"
    and "k < length (per_sdma dd)"
    and "uint_of_int cpu > num_online_cpus_now sys \<or> cpu = sde_cpu (per_sdma dd ! k)"
  shows "hfi1_update_sdma_affinity sys aff dd i cpu = Some (aff, dd)"
  using assms by (auto simp add: hfi1_update_sdma_affinity_def Let_def)

section \<open>Process affinity\<close>

text \<open>
  The two loops over a mask: skipping \<open>k\<close> CPUs moves \<open>k\<close> CPUs up (or to the end), and
  clearing from a CPU on as many CPUs as remain leaves exactly the CPUs below it.
\<close>

lemma cpumask_next_props:
  assumes ok: "cpumask_ok nr m"
  shows "(\<exists>x\<in>m. c < x) \<Longrightarrow>
           cpumask_next nr c m \<in> m \<and> c < cpumask_next nr c m \<and> (\<forall>x\<in>m. c < x \<longrightarrow> cpumask_next nr c m \<le> x)"
    and "\<not> (\<exists>x\<in>m. c < x) \<Longrightarrow> cpumask_next nr c m = nr"
proof -
  have ok': "cpumask_ok nr {x \<in> m. c < x}" using ok by (auto simp: cpumask_ok_def)
  {
    assume "\<exists>x\<in>m. c < x"
    then have ne: "{x \<in> m. c < x} \<noteq> {}" by auto
    from cpumask_first_in[OF ok' ne]
    show "cpumask_next nr c m \<in> m \<and> c < cpumask_next nr c m \<and> (\<forall>x\<in>m. c < x \<longrightarrow> cpumask_next nr c m \<le> x)"
      by (auto simp: cpumask_next_def)
  }
  {
    assume "\<not> (\<exists>x\<in>m. c < x)"
    then have "{x \<in> m. c < x} = {}" by auto
    then show "cpumask_next nr c m = nr" by (simp add: cpumask_next_def cpumask_first_def)
  }
qed

lemma skip_cpus_below:
  assumes ok: "cpumask_ok nr m"
    and pos: "cur \<in> m \<or> cur = nr"
  shows "(skip_cpus nr k cur m \<in> m \<or> skip_cpus nr k cur m = nr)
       \<and> card {x \<in> m. x < skip_cpus nr k cur m} = min (card {x \<in> m. x < cur} + k) (card m)"
  using pos
proof (induction k arbitrary: cur)
  case 0
  have fin: "finite m" using ok by (rule cpumask_ok_finite)
  have "card {x \<in> m. x < cur} \<le> card m" using fin by (intro card_mono) auto
  with 0 show ?case by simp
next
  case (Suc k)
  have fin: "finite m" using ok by (rule cpumask_ok_finite)
  have all_below: "{x \<in> m. x < nr} = m" using ok by (auto simp: cpumask_ok_def)
  let ?c1 = "cpumask_next nr cur m"
  show ?case
  proof (cases "\<exists>x\<in>m. cur < x")
    case True
    note n = cpumask_next_props(1)[OF ok True]
    from Suc.prems True have cm: "cur \<in> m" using ok by (auto simp: cpumask_ok_def)
    have "{x \<in> m. x < ?c1} = insert cur {x \<in> m. x < cur}"
      using n cm by force
    moreover have "cur \<notin> {x \<in> m. x < cur}" by simp
    moreover have "finite {x \<in> m. x < cur}" using fin by simp
    ultimately have c: "card {x \<in> m. x < ?c1} = Suc (card {x \<in> m. x < cur})"
      by simp
    from n have "?c1 \<in> m \<or> ?c1 = nr" by simp
    from Suc.IH[OF this] c show ?thesis by simp
  next
    case False
    then have c1: "?c1 = nr" by (rule cpumask_next_props(2)[OF ok])
    have full: "card m \<le> Suc (card {x \<in> m. x < cur})"
    proof -
      have "m \<subseteq> insert cur {x \<in> m. x < cur}" using False by force
      then have "card m \<le> card (insert cur {x \<in> m. x < cur})"
        using fin by (intro card_mono) auto
      also have "\<dots> \<le> Suc (card {x \<in> m. x < cur})" by (rule card_insert_le_m1[where n = "Suc _", simplified]) simp
      finally show ?thesis .
    qed
    have "?c1 \<in> m \<or> ?c1 = nr" using c1 by simp
    from Suc.IH[OF this] c1 all_below full show ?thesis by simp
  qed
qed

lemma clear_cpus_from:
  assumes "cpumask_ok nr m"
    and "cur \<in> m \<or> cur = nr"
    and "k = card {x \<in> m. cur \<le> x}"
  shows "clear_cpus nr k cur m = Some {x \<in> m. x < cur}"
  using assms
proof (induction k arbitrary: cur m)
  case 0
  have fin: "finite m" using 0(1) by (rule cpumask_ok_finite)
  from 0(3) fin have "{x \<in> m. cur \<le> x} = {}" by simp
  then have "{x \<in> m. x < cur} = m" by force
  then show ?case by simp
next
  case (Suc k)
  have fin: "finite m" using Suc.prems(1) by (rule cpumask_ok_finite)
  from Suc.prems(3) have "card {x \<in> m. cur \<le> x} \<noteq> 0" by simp
  then have "{x \<in> m. cur \<le> x} \<noteq> {}" by (metis card.empty)
  then obtain y where y: "y \<in> m" "cur \<le> y" by auto
  with Suc.prems(1,2) have cm: "cur \<in> m" by (auto simp: cpumask_ok_def)
  with Suc.prems(1) have rng: "0 \<le> cur" "cur < nr" by (auto simp: cpumask_ok_def)
  let ?m' = "m - {cur}"
  let ?c1 = "cpumask_next nr cur ?m'"
  have ok': "cpumask_ok nr ?m'" using Suc.prems(1) by (auto simp: cpumask_ok_def)
  have step: "clear_cpus nr (Suc k) cur m = clear_cpus nr k ?c1 ?m'"
    using rng by (simp add: cpumask_clear_cpu_def)
  have split: "{x \<in> m. cur \<le> x} = insert cur {x \<in> ?m'. cur < x}" using cm by force
  have "card {x \<in> m. cur \<le> x} = Suc (card {x \<in> ?m'. cur < x})"
    unfolding split using fin by (subst card_insert_disjoint) auto
  with Suc.prems(3) have k: "k = card {x \<in> ?m'. cur < x}" by simp
  show ?case
  proof (cases "\<exists>x\<in>?m'. cur < x")
    case True
    note n = cpumask_next_props(1)[OF ok' True]
    have a: "?c1 \<in> ?m' \<or> ?c1 = nr" using n by simp
    have "{x \<in> ?m'. ?c1 \<le> x} = {x \<in> ?m'. cur < x}" using n by force
    with k have b: "k = card {x \<in> ?m'. ?c1 \<le> x}" by simp
    have "{x \<in> ?m'. x < ?c1} = {x \<in> m. x < cur}"
    proof (rule set_eqI)
      fix x
      show "x \<in> {x \<in> ?m'. x < ?c1} \<longleftrightarrow> x \<in> {x \<in> m. x < cur}"
      proof (cases "cur < x")
        case True
        with n show ?thesis by auto
      next
        case False
        with n show ?thesis by auto
      qed
    qed
    with Suc.IH[OF ok' a b] step show ?thesis by simp
  next
    case False
    then have c1: "?c1 = nr" by (rule cpumask_next_props(2)[OF ok'])
    from False have "{x \<in> ?m'. cur < x} = {}" by auto
    then have "card {x \<in> ?m'. cur < x} = 0" by (simp only: card.empty)
    with k have k0: "k = 0" by simp
    have "?m' = {x \<in> m. x < cur}" using False by force
    with step k0 show ?thesis by simp
  qed
qed

lemma find_hw_thread_mask_lowest:
  assumes ok: "cpumask_ok nr (cms_mask (proc aff))"
    and sib: "num_core_siblings aff \<noteq> 0"
    and nodes: "num_online_nodes aff \<noteq> 0"
  shows "\<exists>c. find_hw_thread_mask nr i aff =
               Some (cpumask_shift_left nr {x \<in> cms_mask (proc aff). x < c}
                  (int (num_online_cpus aff div num_core_siblings aff div num_online_nodes aff
                         * num_online_nodes aff * i)))
           \<and> card {x \<in> cms_mask (proc aff). x < c} =
               min (num_online_cpus aff div num_core_siblings aff div num_online_nodes aff
                      * num_online_nodes aff)
                   (card (cms_mask (proc aff)))"
proof -
  let ?m = "cms_mask (proc aff)"
  let ?K = "num_online_cpus aff div num_core_siblings aff div num_online_nodes aff * num_online_nodes aff"
  let ?f = "cpumask_first nr ?m"
  let ?c = "skip_cpus nr ?K ?f ?m"
  have fin: "finite ?m" using ok by (rule cpumask_ok_finite)
  have fpos: "?f \<in> ?m \<or> ?f = nr"
    using cpumask_first_in(1)[OF ok] by (cases "?m = {}") (simp_all add: cpumask_first_def)
  have fbelow: "{x \<in> ?m. x < ?f} = {}"
  proof (cases "?m = {}")
    case True
    then show ?thesis by simp
  next
    case False
    from cpumask_first_in(4)[OF ok False] show ?thesis by force
  qed
  from skip_cpus_below[OF ok fpos, of ?K]
  have cpos: "?c \<in> ?m \<or> ?c = nr"
    and cbelow: "card {x \<in> ?m. x < ?c} = min ?K (card ?m)"
    by (simp_all add: fbelow)
  have "?m = {x \<in> ?m. x < ?c} \<union> {x \<in> ?m. ?c \<le> x}" by auto
  moreover have "{x \<in> ?m. x < ?c} \<inter> {x \<in> ?m. ?c \<le> x} = {}" by auto
  ultimately have "card ?m = card {x \<in> ?m. x < ?c} + card {x \<in> ?m. ?c \<le> x}"
    using fin by (metis (no_types, lifting) card_Un_disjoint finite_Un)
  with cbelow have cnt: "card ?m - ?K = card {x \<in> ?m. ?c \<le> x}" by simp
  from clear_cpus_from[OF ok cpos cnt]
  have "find_hw_thread_mask nr i aff = Some (cpumask_shift_left nr {x \<in> ?m. x < ?c} (int (?K * i)))"
    using sib nodes by (simp add: find_hw_thread_mask_def Let_def)
  with cbelow show ?thesis by blast
qed

lemma cpumask_shift_left_0: "cpumask_ok nr m \<Longrightarrow> cpumask_shift_left nr m 0 = m"
  by (auto simp: cpumask_shift_left_def cpumask_ok_def)

lemma find_hw_thread_mask_proc_upd:
  "cms_mask p = cms_mask (proc aff) \<Longrightarrow>
     find_hw_thread_mask nr i (aff\<lparr>proc := p\<rparr>) = find_hw_thread_mask nr i aff"
  by (simp add: find_hw_thread_mask_def)

lemma intrs_mask_of_proc_upd: "intrs_mask_of (aff\<lparr>proc := p\<rparr>) n = intrs_mask_of aff n"
  by (simp add: intrs_mask_of_def split: option.splits)

text \<open>
  The search path of the process advisor: the allowed set is neither a single CPU nor
  smaller than the process mask, and the scratch masks are allocated.
\<close>

lemma hfi1_get_proc_affinity_search:
  assumes w1: "cpumask_weight proc_mask \<noteq> 1"
    and w2: "\<not> cpumask_weight proc_mask < cpumask_weight (cms_mask (proc aff))"
    and s1: "set1 = (if cms_mask (proc aff) = cms_used (proc aff)
                     then (proc aff)\<lparr>cms_gen := cms_gen (proc aff) + 1, cms_used := {}\<rparr>
                     else proc aff)"
    and lp: "find_thread_loop (nr_cpu_ids sys) (aff\<lparr>proc := set1\<rparr>) 0 (num_core_siblings aff) (cms_mask set1)
               = Some hw"
    and cpu: "cpu = cpumask_first (nr_cpu_ids sys)
                (proc_available hw (cpumask_of_node sys n) (cms_used set1) (intrs_mask_of aff n))"
  shows "hfi1_get_proc_affinity sys True aff n proc_mask =
           (if cpu \<ge> nr_cpu_ids sys then Some (- 1, aff\<lparr>proc := set1\<rparr>)
            else if 0 \<le> cpu then Some (cpu, aff\<lparr>proc := set1\<lparr>cms_used := insert cpu (cms_used set1)\<rparr>\<rparr>)
            else None)"
proof (cases "cms_mask (proc aff) = cms_used (proc aff)")
  case True
  with s1 have s: "set1 = (proc aff)\<lparr>cms_gen := cms_gen (proc aff) + 1, cms_used := {}\<rparr>" by simp
  show ?thesis
    using w1 w2 True lp cpu unfolding s
    by (simp add: hfi1_get_proc_affinity_def Let_def intrs_mask_of_proc_upd cpumask_set_cpu_def)
next
  case False
  with s1 have s: "set1 = proc aff" by simp
  show ?thesis
    using w1 w2 False lp cpu unfolding s
    by (simp add: hfi1_get_proc_affinity_def Let_def intrs_mask_of_proc_upd cpumask_set_cpu_def)
qed

lemma proc_available_no_intrs:
  "proc_available hw nm used {} = (if hw \<inter> nm - used \<noteq> {} then hw \<inter> nm - used else hw - used - nm)"
  by (simp add: proc_available_def Let_def)

text \<open>
  Claim C9. With a process set of mask \<open>{0, ..., 7}\<close>, nothing used, generation 0, one
  hardware thread per core, 8 online CPUs on 1 to 8 online nodes, no entry for the node
  \<open>n\<close>, the CPUs 0 to 3 local to \<open>n\<close>, and a caller allowed on all 8 CPUs: the first call
  returns CPU 0 and marks it used, and the same call again, CPU 0 still used, returns
  CPU 1 and marks it used.
\<close>

theorem C9_process_advisor_example:
  assumes nr: "8 \<le> nr_cpu_ids sys"
    and pool: "proc aff = \<lparr>cms_mask = {0, 1, 2, 3, 4, 5, 6, 7}, cms_used = {}, cms_gen = 0\<rparr>"
    and noht: "num_core_siblings aff = 1"
    and cpus: "num_online_cpus aff = 8"
    and nodes: "1 \<le> num_online_nodes aff" "num_online_nodes aff \<le> 8"
    and noentry: "node_affinity_lookup (node_list aff) n = None"
    and local: "cpumask_of_node sys n = {0, 1, 2, 3}"
    and allowed: "proc_mask = {0, 1, 2, 3, 4, 5, 6, 7}"
  shows "hfi1_get_proc_affinity sys True aff n proc_mask
           = Some (0, aff\<lparr>proc := (proc aff)\<lparr>cms_used := {0}\<rparr>\<rparr>)
       \<and> hfi1_get_proc_affinity sys True (aff\<lparr>proc := (proc aff)\<lparr>cms_used := {0}\<rparr>\<rparr>) n proc_mask
           = Some (1, aff\<lparr>proc := (proc aff)\<lparr>cms_used := {0, 1}\<rparr>\<rparr>)"
proof -
  let ?m = "{0, 1, 2, 3, 4, 5, 6, 7} :: int set"
  let ?nr = "nr_cpu_ids sys"
  let ?K = "num_online_cpus aff div num_core_siblings aff div num_online_nodes aff * num_online_nodes aff"
  let ?aff1 = "aff\<lparr>proc := (proc aff)\<lparr>cms_used := {0}\<rparr>\<rparr>"
  have m: "cms_mask (proc aff) = ?m" by (simp add: pool)
  have ok: "cpumask_ok ?nr (cms_mask (proc aff))" using nr by (simp add: m cpumask_ok_def)
  have card_m: "card ?m = 8" by simp
  have K2: "2 \<le> ?K"
  proof (cases "num_online_nodes aff = 1")
    case True
    then show ?thesis by (simp add: cpus noht)
  next
    case False
    with nodes have n2: "2 \<le> num_online_nodes aff" by simp
    from nodes(2) have "num_online_nodes aff div num_online_nodes aff \<le> 8 div num_online_nodes aff"
      by (rule div_le_mono)
    with nodes(1) have "1 \<le> 8 div num_online_nodes aff" by simp
    then have "1 * num_online_nodes aff \<le> 8 div num_online_nodes aff * num_online_nodes aff"
      by (rule mult_le_mono1)
    then have "num_online_nodes aff \<le> 8 div num_online_nodes aff * num_online_nodes aff"
      by (simp only: nat_mult_1)
    with n2 have "2 \<le> 8 div num_online_nodes aff * num_online_nodes aff" by (rule order_trans)
    then show ?thesis by (simp add: cpus noht)
  qed
  have sib: "num_core_siblings aff \<noteq> 0" by (simp add: noht)
  have nn: "num_online_nodes aff \<noteq> 0" using nodes by simp
  from find_hw_thread_mask_lowest[OF ok sib nn, of 0] obtain c where
    fh: "find_hw_thread_mask ?nr 0 aff = Some (cpumask_shift_left ?nr {x \<in> ?m. x < c} 0)"
    and cd: "card {x \<in> ?m. x < c} = min ?K 8"
    unfolding m card_m by auto
  define hw where "hw = {x \<in> ?m. x < c}"
  have hw_ok: "cpumask_ok ?nr hw" using nr by (auto simp: hw_def cpumask_ok_def)
  have fh': "find_hw_thread_mask ?nr 0 aff = Some hw"
    using fh cpumask_shift_left_0[OF hw_ok] by (simp add: hw_def)
  have card_hw: "2 \<le> card hw" using cd K2 by (simp add: hw_def)
  have c_big: "1 < c"
  proof (rule ccontr)
    assume "\<not> 1 < c"
    then have "hw \<subseteq> {0}" by (auto simp: hw_def)
    then have "card hw \<le> card {0::int}" by (intro card_mono) auto
    with card_hw show False by simp
  qed
  have hw0: "0 \<in> hw" and hw1: "1 \<in> hw" using c_big by (auto simp: hw_def)
  have hw_sub: "hw \<subseteq> ?m" by (auto simp: hw_def)
  have loop: "find_thread_loop ?nr (aff\<lparr>proc := p\<rparr>) 0 (num_core_siblings a) x = Some hw"
    if "cms_mask p = ?m" "num_core_siblings a = 1" for p a x
    using that fh' m by (simp add: find_hw_thread_mask_proc_upd)
  have intr: "intrs_mask_of a n = {}" if "node_list a = node_list aff" for a
    using that noentry by (simp add: intrs_mask_of_def)
  have w1: "cpumask_weight proc_mask \<noteq> 1" by (simp add: allowed cpumask_weight_def)
  have w2: "\<not> cpumask_weight proc_mask < cpumask_weight (cms_mask (proc a))"
    if "cms_mask (proc a) = ?m" for a
    using that by (simp add: allowed cpumask_weight_def)
  \<comment> \<open>first call\<close>
  have s1: "proc aff = (if cms_mask (proc aff) = cms_used (proc aff)
                     then (proc aff)\<lparr>cms_gen := cms_gen (proc aff) + 1, cms_used := {}\<rparr>
                     else proc aff)"
    by (simp add: pool)
  have av0: "proc_available hw (cpumask_of_node sys n) (cms_used (proc aff)) (intrs_mask_of aff n)
               = hw \<inter> {0, 1, 2, 3} - {}"
    using hw0 unfolding intr[OF refl] proc_available_no_intrs local pool by auto
  have f0: "0 = cpumask_first ?nr (hw \<inter> {0, 1, 2, 3} - {})"
    using hw0 hw_sub by (intro cpumask_first_eq[symmetric]) auto
  have first: "hfi1_get_proc_affinity sys True aff n proc_mask
           = Some (0, aff\<lparr>proc := (proc aff)\<lparr>cms_used := {0}\<rparr>\<rparr>)"
    using hfi1_get_proc_affinity_search[OF w1 w2[OF m] s1 loop[OF m noht] f0[folded av0]] nr
    by (simp add: pool)
  \<comment> \<open>second call\<close>
  have m1: "cms_mask (proc ?aff1) = ?m" by (simp add: pool)
  have s2: "proc ?aff1 = (if cms_mask (proc ?aff1) = cms_used (proc ?aff1)
                     then (proc ?aff1)\<lparr>cms_gen := cms_gen (proc ?aff1) + 1, cms_used := {}\<rparr>
                     else proc ?aff1)"
    by (simp add: pool)
  have av1: "proc_available hw (cpumask_of_node sys n) (cms_used (proc ?aff1)) (intrs_mask_of ?aff1 n)
               = hw \<inter> {0, 1, 2, 3} - {0}"
    using hw1 unfolding intrs_mask_of_proc_upd intr[OF refl] proc_available_no_intrs local by auto
  have f1: "1 = cpumask_first ?nr (hw \<inter> {0, 1, 2, 3} - {0})"
    using hw1 hw_sub by (intro cpumask_first_eq[symmetric]) auto
  have lp2: "find_thread_loop ?nr (?aff1\<lparr>proc := proc ?aff1\<rparr>) 0 (num_core_siblings ?aff1) (cms_mask (proc ?aff1)) = Some hw"
    using loop[of "proc ?aff1" ?aff1] by (simp add: pool noht)
  have second: "hfi1_get_proc_affinity sys True ?aff1 n proc_mask
           = Some (1, aff\<lparr>proc := (proc aff)\<lparr>cms_used := {0, 1}\<rparr>\<rparr>)"
    using hfi1_get_proc_affinity_search[OF w1 w2[OF m1] s2 lp2 f1[folded av1]] nr
    by (simp add: pool insert_commute)
  from first second show ?thesis by simp
qed

theorem C9_process_advisor_example_witness:
  "hfi1_get_proc_affinity ex_topology8 True ex_registry8 0 {0, 1, 2, 3, 4, 5, 6, 7}
     = Some (0, ex_registry8\<lparr>proc := \<lparr>cms_mask = {0, 1, 2, 3, 4, 5, 6, 7}, cms_used = {0}, cms_gen = 0\<rparr>\<rparr>)
   \<and> hfi1_get_proc_affinity ex_topology8 True
        (ex_registry8\<lparr>proc := \<lparr>cms_mask = {0, 1, 2, 3, 4, 5, 6, 7}, cms_used = {0}, cms_gen = 0\<rparr>\<rparr>)
        0 {0, 1, 2, 3, 4, 5, 6, 7}
     = Some (1, ex_registry8\<lparr>proc := \<lparr>cms_mask = {0, 1, 2, 3, 4, 5, 6, 7}, cms_used = {0, 1}, cms_gen = 0\<rparr>\<rparr>)"
proof -
  have h1: "8 \<le> nr_cpu_ids ex_topology8" by (simp add: ex_topology8_def)
  have h2: "proc ex_registry8 = \<lparr>cms_mask = {0, 1, 2, 3, 4, 5, 6, 7}, cms_used = {}, cms_gen = 0\<rparr>"
    by (simp add: ex_registry8_def)
  have h3: "num_core_siblings ex_registry8 = 1" by (simp add: ex_registry8_def)
  have h4: "num_online_cpus ex_registry8 = 8" by (simp add: ex_registry8_def)
  have h5: "1 \<le> num_online_nodes ex_registry8" "num_online_nodes ex_registry8 \<le> 8"
    by (simp_all add: ex_registry8_def)
  have h6: "node_affinity_lookup (node_list ex_registry8) 0 = None" by (simp add: ex_registry8_def)
  have h7: "cpumask_of_node ex_topology8 0 = {0, 1, 2, 3}" by (simp add: ex_topology8_def)
  show ?thesis
    using C9_process_advisor_example[OF h1 h2 h3 h4 h5 h6 h7 refl] by (simp add: h2)
qed

section \<open>What the operations keep\<close>

text \<open>
  Every operation keeps the interrupt sets of the registry well formed: used CPUs inside
  the mask, the mask inside the CPU ids, and an empty used set only at generation 0.
\<close>

lemma cpumask_ok_subset: "cpumask_ok nr m \<Longrightarrow> m' \<subseteq> m \<Longrightarrow> cpumask_ok nr m'"
  by (auto simp: cpumask_ok_def)

lemma cpumask_ok_insert: "cpumask_ok nr m \<Longrightarrow> 0 \<le> c \<Longrightarrow> c < nr \<Longrightarrow> cpumask_ok nr (insert c m)"
  by (auto simp: cpumask_ok_def)

lemma get_irq_affinity_set_inv:
  assumes g: "get_irq_affinity_set nr s = Some (c, s')"
    and inv: "irq_set_inv nr s"
  shows "irq_set_inv nr s'"
proof -
  define s1 where "s1 = (if cms_mask s = cms_used s then s\<lparr>cms_gen := cms_gen s + 1, cms_used := {}\<rparr> else s)"
  define d where "d = cms_mask s1 - cms_used s1"
  from g have c: "c = cpumask_first nr d" "0 \<le> c" "c < nr"
    and s': "s' = s1\<lparr>cms_used := insert c (cms_used s1)\<rparr>"
    by (auto simp: get_irq_affinity_set_def Let_def cpumask_set_cpu_def s1_def d_def split: if_splits)
  from inv have ok: "cpumask_ok nr (cms_mask s)" and sub: "cms_used s \<subseteq> cms_mask s"
    by (simp_all add: irq_set_inv_def cpu_mask_set_ok_def)
  have m1: "cms_mask s1 = cms_mask s" by (simp add: s1_def)
  have u1: "cms_used s1 \<subseteq> cms_mask s1" using sub by (simp add: s1_def)
  have ne: "d \<noteq> {}" using c by (auto simp: cpumask_first_def)
  have "finite d" using cpumask_ok_finite[OF ok] by (simp add: d_def m1)
  then have "Min d \<in> d" using ne by (rule Min_in)
  with ne c(1) have "c \<in> cms_mask s1" by (simp add: cpumask_first_def d_def)
  with u1 ok show ?thesis by (simp add: s' m1 irq_set_inv_def cpu_mask_set_ok_def)
qed

lemma put_irq_affinity_set_inv:
  assumes inv: "irq_set_inv nr s"
  shows "irq_set_inv nr (put_irq_affinity_set m s)"
proof -
  from inv have ok: "cpumask_ok nr (cms_mask s)" and sub: "cms_used s \<subseteq> cms_mask s"
    and idle: "cms_used s = {} \<longrightarrow> cms_gen s = 0"
    by (simp_all add: irq_set_inv_def cpu_mask_set_ok_def)
  have sub': "cms_used s - m \<subseteq> cms_mask s" using sub by blast
  consider (refill) "cms_used s - m = {}" "cms_gen s \<noteq> 0"
    | (rest) "cms_used s - m \<noteq> {} \<or> cms_gen s = 0"
    by blast
  then show ?thesis
  proof cases
    case refill
    with idle have "cms_used s \<noteq> {}" by blast
    with sub have "cms_mask s \<noteq> {}" by blast
    with refill ok show ?thesis
      by (simp add: put_irq_affinity_set_def irq_set_inv_def cpu_mask_set_ok_def)
  next
    case rest
    then have eq: "put_irq_affinity_set m s = s\<lparr>cms_used := cms_used s - m\<rparr>"
      by (auto simp: put_irq_affinity_set_def Let_def)
    from rest have "cms_used s - m = {} \<longrightarrow> cms_gen s = 0" by blast
    with ok sub' show ?thesis
      unfolding eq irq_set_inv_def cpu_mask_set_ok_def by simp
  qed
qed

lemma ball_list_update:
  assumes "\<forall>e\<in>set xs. P e" "P e'"
  shows "\<forall>e\<in>set (xs[p := e']). P e"
  using assms set_update_subset_insert[of xs p e'] by auto

lemma entry_inv_update:
  assumes "entry_inv nr e" "irq_set_inv nr s"
  shows "entry_inv nr (entry_set_update sp s e)"
  using assms by (cases sp) (simp_all add: entry_inv_def)

lemma entry_inv_set:
  assumes "entry_inv nr e"
  shows "irq_set_inv nr (entry_set sp e)"
  using assms by (cases sp) (simp_all add: entry_inv_def)

lemma move_rcv_cpus_ok:
  assumes "move_rcv_cpus nr k c d r = Some (d', r')" "cpumask_ok nr d" "cpumask_ok nr r"
  shows "cpumask_ok nr d' \<and> cpumask_ok nr r'"
  using assms
proof (induction k arbitrary: c d r)
  case 0
  then show ?case by simp
next
  case (Suc k)
  from Suc.prems(1) obtain d1 r1 where d1: "cpumask_clear_cpu nr c d = Some d1"
    and r1: "cpumask_set_cpu nr c r = Some r1"
    and rest: "(if cpumask_next nr c d1 \<ge> nr then Some (d1, r1)
                else move_rcv_cpus nr k (cpumask_next nr c d1) d1 r1) = Some (d', r')"
    by (auto simp: Let_def split: bind_splits)
  from d1 Suc.prems(2) have fd: "cpumask_ok nr d1"
    by (auto simp: cpumask_clear_cpu_def cpumask_ok_def split: if_splits)
  from r1 Suc.prems(3) have fr: "cpumask_ok nr r1"
    by (auto simp: cpumask_set_cpu_def cpumask_ok_def split: if_splits)
  show ?case
  proof (cases "cpumask_next nr c d1 \<ge> nr")
    case True
    with rest fd fr show ?thesis by simp
  next
    case False
    with rest have "move_rcv_cpus nr k (cpumask_next nr c d1) d1 r1 = Some (d', r')" by simp
    from Suc.IH[OF this fd fr] show ?thesis .
  qed
qed

lemma irq_set_inv_fresh: "cpumask_ok nr m \<Longrightarrow> irq_set_inv nr (init_cpu_mask_set\<lparr>cms_mask := m\<rparr>)"
  by (simp add: irq_set_inv_def cpu_mask_set_ok_def init_cpu_mask_set_def)

lemma new_affinity_node_inv:
  assumes n: "new_affinity_node nr cntr krcv n cand = Some e" and ok: "cpumask_ok nr cand"
  shows "entry_inv nr e"
proof (cases "cpumask_weight cand = 1")
  case True
  let ?c = "cpumask_first nr cand"
  from n True obtain r g where r: "cpumask_set_cpu nr ?c {} = Some r"
    and e: "e = \<lparr>node = n,
                 def_intr = init_cpu_mask_set\<lparr>cms_mask := cand\<rparr>,
                 rcv_intr = init_cpu_mask_set\<lparr>cms_mask := r\<rparr>,
                 general_intr_mask = g\<rparr>"
    by (auto simp: new_affinity_node_def Let_def split: bind_splits)
  from r have "cpumask_ok nr r" by (auto simp: cpumask_set_cpu_def cpumask_ok_def split: if_splits)
  with ok show ?thesis by (simp add: e entry_inv_def irq_set_inv_fresh)
next
  case False
  let ?c = "cpumask_first nr cand"
  from n False obtain d1 g pn d2 r where
    d1: "cpumask_clear_cpu nr ?c cand = Some d1"
    and g: "cpumask_set_cpu nr ?c {} = Some g"
    and mv: "move_rcv_cpus nr (rcv_loop_bound krcv pn) (cpumask_next nr ?c d1) d1 {} = Some (d2, r)"
    and e: "e = \<lparr>node = n,
                 def_intr = init_cpu_mask_set\<lparr>cms_mask := (if cpumask_weight d2 = 0 then g else d2)\<rparr>,
                 rcv_intr = init_cpu_mask_set\<lparr>cms_mask := r\<rparr>,
                 general_intr_mask = g\<rparr>"
    by (auto simp: new_affinity_node_def Let_def split: bind_splits)
  from d1 ok have fd1: "cpumask_ok nr d1"
    by (auto simp: cpumask_clear_cpu_def cpumask_ok_def split: if_splits)
  from g have fg: "cpumask_ok nr g" by (auto simp: cpumask_set_cpu_def cpumask_ok_def split: if_splits)
  have "cpumask_ok nr {}" by (simp add: cpumask_ok_def)
  from move_rcv_cpus_ok[OF mv fd1 this] have "cpumask_ok nr d2" "cpumask_ok nr r" by simp_all
  with fg show ?thesis
    by (simp add: e entry_inv_def irq_set_inv_fresh)
qed

lemma hfi1_dev_affinity_init_inv:
  assumes a: "hfi1_dev_affinity_init sys kz st dd = Some (r, st', dd')"
    and inv: "registry_inv (nr_cpu_ids sys) (node_affinity st)"
  shows "registry_inv (nr_cpu_ids sys) (node_affinity st') \<and> proc (node_affinity st') = proc (node_affinity st)"
proof (cases "node_affinity_lookup (node_list (node_affinity st)) (dev_node sys dd)")
  case (Some i)
  with a inv show ?thesis by (simp add: hfi1_dev_affinity_init_def Let_def)
next
  case None
  show ?thesis
  proof (cases kz)
    case False
    with None a inv show ?thesis by (simp add: hfi1_dev_affinity_init_def Let_def)
  next
    case True
    let ?cand = "real_cpu_mask (node_affinity st) \<inter> dev_local_mask sys (dev_node sys dd)"
    from a None True obtain e where
      e: "new_affinity_node (nr_cpu_ids sys) (hfi1_per_node_cntr st) (n_krcv_queues dd) (dev_node sys dd) ?cand
            = Some e"
      and st': "st' = st\<lparr>node_affinity := (node_affinity st)\<lparr>node_list := node_list (node_affinity st) @ [e]\<rparr>\<rparr>"
      by (auto simp: hfi1_dev_affinity_init_def Let_def split: bind_splits)
    from inv have "cpumask_ok (nr_cpu_ids sys) (real_cpu_mask (node_affinity st))"
      by (simp add: registry_inv_def)
    then have "cpumask_ok (nr_cpu_ids sys) ?cand" by (rule cpumask_ok_subset) simp
    from new_affinity_node_inv[OF e this] inv show ?thesis
      by (simp add: st' registry_inv_def)
  qed
qed

lemma registry_inv_entry:
  assumes "registry_inv nr aff" "node_affinity_lookup (node_list aff) n = Some p"
  shows "entry_inv nr (node_list aff ! p)" "p < length (node_list aff)"
proof -
  from node_affinity_lookup_Some[OF assms(2)] show p: "p < length (node_list aff)" by simp
  then have "node_list aff ! p \<in> set (node_list aff)" by simp
  with assms(1) show "entry_inv nr (node_list aff ! p)" by (simp add: registry_inv_def)
qed

lemma registry_inv_update:
  assumes "registry_inv nr aff" "entry_inv nr e'"
  shows "registry_inv nr (aff\<lparr>node_list := (node_list aff)[p := e']\<rparr>)"
  using assms ball_list_update[of "node_list aff" "entry_inv nr" e' p] by (simp add: registry_inv_def)

lemma get_irq_affinity_inv:
  assumes g: "get_irq_affinity sys alloc_ok aff dd i = Some (r, aff', dd')"
    and inv: "registry_inv (nr_cpu_ids sys) aff"
  shows "registry_inv (nr_cpu_ids sys) aff' \<and> proc aff' = proc aff"
proof -
  have step: "registry_inv (nr_cpu_ids sys)
                (aff\<lparr>node_list := (node_list aff)[p := entry_set_update sp s' (node_list aff ! p)]\<rparr>)"
    if pos: "node_affinity_lookup (node_list aff) (dd_node dd) = Some p"
      and gs: "get_irq_affinity_set (nr_cpu_ids sys) (entry_set sp (node_list aff ! p)) = Some (c, s')"
    for p sp c s'
  proof -
    note e = registry_inv_entry[OF inv pos]
    from get_irq_affinity_set_inv[OF gs entry_inv_set[OF e(1)]] have "irq_set_inv (nr_cpu_ids sys) s'" .
    from entry_inv_update[OF e(1) this]
    have "entry_inv (nr_cpu_ids sys) (entry_set_update sp s' (node_list aff ! p))" .
    from registry_inv_update[OF inv this] show ?thesis .
  qed
  from g inv show ?thesis
    by (auto simp: get_irq_affinity_def Let_def split: if_splits bind_splits) (rule step; assumption)+
qed

lemma hfi1_put_irq_affinity_inv:
  assumes g: "hfi1_put_irq_affinity sys aff dd i = Some (aff', dd')"
    and inv: "registry_inv (nr_cpu_ids sys) aff"
  shows "registry_inv (nr_cpu_ids sys) aff' \<and> proc aff' = proc aff"
proof -
  have step: "registry_inv (nr_cpu_ids sys) (aff\<lparr>node_list := (node_list aff)
                [p := entry_set_update sp (put_irq_affinity_set m (entry_set sp (node_list aff ! p))) (node_list aff ! p)]\<rparr>)"
    if pos: "node_affinity_lookup (node_list aff) (dd_node dd) = Some p" for p sp m
  proof -
    note e = registry_inv_entry[OF inv pos]
    from put_irq_affinity_set_inv[OF entry_inv_set[OF e(1)]]
    have "irq_set_inv (nr_cpu_ids sys) (put_irq_affinity_set m (entry_set sp (node_list aff ! p)))" .
    from entry_inv_update[OF e(1) this] registry_inv_update[OF inv] show ?thesis by simp
  qed
  from g inv show ?thesis
    by (auto simp: hfi1_put_irq_affinity_def Let_def split: if_splits bind_splits option.splits)
       (rule step; assumption)+
qed

lemma hfi1_update_sdma_affinity_inv:
  assumes g: "hfi1_update_sdma_affinity sys aff dd i cpu = Some (aff', dd')"
    and inv: "registry_inv (nr_cpu_ids sys) aff"
  shows "registry_inv (nr_cpu_ids sys) aff' \<and> proc aff' = proc aff"
proof -
  have step: "registry_inv (nr_cpu_ids sys) (aff\<lparr>node_list := (node_list aff)
                [p := (node_list aff ! p)\<lparr>def_intr := (def_intr (node_list aff ! p))\<lparr>cms_mask := m, cms_used := u\<rparr>\<rparr>]\<rparr>)"
    if pos: "node_affinity_lookup (node_list aff) (dd_node dd) = Some p"
      and mu: "u \<subseteq> m" "m \<subseteq> {0..<nr_cpu_ids sys}" "u \<noteq> {}"
    for p m u
  proof -
    note e = registry_inv_entry[OF inv pos]
    from e(1) mu have "entry_inv (nr_cpu_ids sys)
        ((node_list aff ! p)\<lparr>def_intr := (def_intr (node_list aff ! p))\<lparr>cms_mask := m, cms_used := u\<rparr>\<rparr>)"
      by (simp add: entry_inv_def irq_set_inv_def cpu_mask_set_ok_def cpumask_ok_def)
    from registry_inv_update[OF inv this] show ?thesis .
  qed
  have sub: "cms_used (def_intr (node_list aff ! p)) \<subseteq> cms_mask (def_intr (node_list aff ! p))"
      "cms_mask (def_intr (node_list aff ! p)) \<subseteq> {0..<nr_cpu_ids sys}"
    if pos: "node_affinity_lookup (node_list aff) (dd_node dd) = Some p" for p
    using registry_inv_entry(1)[OF inv pos]
    by (simp_all add: entry_inv_def irq_set_inv_def cpu_mask_set_ok_def cpumask_ok_def)
  from g inv show ?thesis
    by (auto simp: hfi1_update_sdma_affinity_def Let_def cpumask_set_cpu_def cpumask_clear_cpu_def
        split: if_splits bind_splits option.splits irq_arg.splits
        intro!: step dest: sub)
qed

subsection \<open>The process set\<close>

lemma hfi1_get_proc_affinity_search_None:
  assumes w1: "cpumask_weight proc_mask \<noteq> 1"
    and w2: "\<not> cpumask_weight proc_mask < cpumask_weight (cms_mask (proc aff))"
    and s1: "set1 = (if cms_mask (proc aff) = cms_used (proc aff)
                     then (proc aff)\<lparr>cms_gen := cms_gen (proc aff) + 1, cms_used := {}\<rparr>
                     else proc aff)"
    and lp: "find_thread_loop (nr_cpu_ids sys) (aff\<lparr>proc := set1\<rparr>) 0 (num_core_siblings aff) (cms_mask set1)
               = None"
  shows "hfi1_get_proc_affinity sys True aff n proc_mask = None"
proof (cases "cms_mask (proc aff) = cms_used (proc aff)")
  case True
  with s1 have s: "set1 = (proc aff)\<lparr>cms_gen := cms_gen (proc aff) + 1, cms_used := {}\<rparr>" by simp
  show ?thesis
    using w1 w2 True lp unfolding s
    by (simp add: hfi1_get_proc_affinity_def Let_def)
next
  case False
  with s1 have s: "set1 = proc aff" by simp
  show ?thesis
    using w1 w2 False lp unfolding s
    by (simp add: hfi1_get_proc_affinity_def Let_def)
qed

lemma hfi1_get_proc_affinity_same:
  assumes "cpumask_weight proc_mask \<noteq> 1"
    and "cpumask_weight proc_mask < cpumask_weight (cms_mask (proc aff)) \<or> \<not> alloc_ok"
  shows "hfi1_get_proc_affinity sys alloc_ok aff n proc_mask = Some (- 1, aff)"
  using assms by (auto simp: hfi1_get_proc_affinity_def Let_def)

lemma hfi1_get_proc_affinity_pinned:
  assumes "cpumask_weight proc_mask = 1"
  shows "hfi1_get_proc_affinity sys alloc_ok aff n proc_mask =
           (if 0 \<le> cpumask_first (nr_cpu_ids sys) proc_mask
               \<and> cpumask_first (nr_cpu_ids sys) proc_mask < nr_cpu_ids sys
            then Some (cpumask_first (nr_cpu_ids sys) proc_mask,
                       aff\<lparr>proc := (proc aff)\<lparr>cms_used :=
                          insert (cpumask_first (nr_cpu_ids sys) proc_mask) (cms_used (proc aff))\<rparr>\<rparr>)
            else None)"
  using assms by (simp add: hfi1_get_proc_affinity_def Let_def cpumask_set_cpu_def)

lemma proc_frame_ok:
  assumes a: "aff' = aff\<lparr>proc := p\<rparr>"
    and m: "cms_mask p = cms_mask (proc aff)"
    and u: "cpu_mask_set_ok (proc aff) \<Longrightarrow> cond \<Longrightarrow> cms_used p \<subseteq> cms_mask (proc aff)"
  shows "node_list aff' = node_list aff \<and> real_cpu_mask aff' = real_cpu_mask aff
       \<and> cms_mask (proc aff') = cms_mask (proc aff)
       \<and> (cpu_mask_set_ok (proc aff) \<longrightarrow> cond \<longrightarrow> cpu_mask_set_ok (proc aff'))"
proof -
  have "cpu_mask_set_ok (proc aff')" if "cpu_mask_set_ok (proc aff)" cond
    using u[OF that] by (simp add: a m cpu_mask_set_ok_def)
  then show ?thesis by (simp add: a m)
qed

lemma hfi1_get_proc_affinity_inv:
  assumes g: "hfi1_get_proc_affinity sys alloc_ok aff n proc_mask = Some (r, aff')"
  shows "node_list aff' = node_list aff \<and> real_cpu_mask aff' = real_cpu_mask aff
       \<and> cms_mask (proc aff') = cms_mask (proc aff)
       \<and> (cpu_mask_set_ok (proc aff) \<longrightarrow> r = - 1 \<or> r \<in> cms_mask (proc aff) \<longrightarrow> cpu_mask_set_ok (proc aff'))"
proof -
  let ?nr = "nr_cpu_ids sys"
  consider (pinned) "cpumask_weight proc_mask = 1"
    | (same) "cpumask_weight proc_mask \<noteq> 1"
        "cpumask_weight proc_mask < cpumask_weight (cms_mask (proc aff)) \<or> \<not> alloc_ok"
    | (search) "cpumask_weight proc_mask \<noteq> 1"
        "\<not> cpumask_weight proc_mask < cpumask_weight (cms_mask (proc aff))" "alloc_ok"
    by blast
  then show ?thesis
  proof cases
    case pinned
    let ?c = "cpumask_first ?nr proc_mask"
    from g have c: "0 \<le> ?c \<and> ?c < ?nr"
      unfolding hfi1_get_proc_affinity_pinned[OF pinned] by (simp split: if_splits)
    from c have e: "hfi1_get_proc_affinity sys alloc_ok aff n proc_mask
        = Some (?c, aff\<lparr>proc := (proc aff)\<lparr>cms_used := insert ?c (cms_used (proc aff))\<rparr>\<rparr>)"
      by (simp add: hfi1_get_proc_affinity_pinned[OF pinned])
    note g[unfolded e]
    then have r: "r = ?c"
      and a': "aff' = aff\<lparr>proc := (proc aff)\<lparr>cms_used := insert ?c (cms_used (proc aff))\<rparr>\<rparr>"
      by (metis option.inject prod.inject)+
    from a' r have a: "aff' = aff\<lparr>proc := (proc aff)\<lparr>cms_used := insert r (cms_used (proc aff))\<rparr>\<rparr>"
      by simp
    from c r have r0: "r \<noteq> - 1" by simp
    show ?thesis
    proof (rule proc_frame_ok[OF a])
      show "cms_mask ((proc aff)\<lparr>cms_used := insert r (cms_used (proc aff))\<rparr>) = cms_mask (proc aff)" by simp
      show "cms_used ((proc aff)\<lparr>cms_used := insert r (cms_used (proc aff))\<rparr>) \<subseteq> cms_mask (proc aff)"
        if "cpu_mask_set_ok (proc aff)" "r = - 1 \<or> r \<in> cms_mask (proc aff)"
        using that r0 by (simp add: cpu_mask_set_ok_def)
    qed
  next
    case same
    from hfi1_get_proc_affinity_same[OF same, of sys n] g have "aff' = aff" by simp
    then show ?thesis by simp
  next
    case search
    define set1 where "set1 = (if cms_mask (proc aff) = cms_used (proc aff)
                     then (proc aff)\<lparr>cms_gen := cms_gen (proc aff) + 1, cms_used := {}\<rparr>
                     else proc aff)"
    have m1: "cms_mask set1 = cms_mask (proc aff)" by (simp add: set1_def)
    have u1: "cpu_mask_set_ok (proc aff) \<Longrightarrow> cms_used set1 \<subseteq> cms_mask (proc aff)"
      by (simp add: set1_def cpu_mask_set_ok_def)
    from search(3) g have g': "hfi1_get_proc_affinity sys True aff n proc_mask = Some (r, aff')" by simp
    show ?thesis
    proof (cases "find_thread_loop ?nr (aff\<lparr>proc := set1\<rparr>) 0 (num_core_siblings aff) (cms_mask set1)")
      case None
      from hfi1_get_proc_affinity_search_None[OF search(1,2) set1_def None, of n] g'
      show ?thesis by simp
    next
      case (Some hw)
      define cpu where "cpu = cpumask_first ?nr
          (proc_available hw (cpumask_of_node sys n) (cms_used set1) (intrs_mask_of aff n))"
      note eq = hfi1_get_proc_affinity_search[OF search(1,2) set1_def Some cpu_def]
      show ?thesis
      proof (cases "cpu \<ge> ?nr")
        case True
        with eq g' have a: "aff' = aff\<lparr>proc := set1\<rparr>" by simp
        show ?thesis
        proof (rule proc_frame_ok[OF a m1])
          show "cms_used set1 \<subseteq> cms_mask (proc aff)" if "cpu_mask_set_ok (proc aff)"
            using u1[OF that] .
        qed
      next
        case False
        with eq g' have c0: "0 \<le> cpu" by (simp split: if_splits)
        with False eq have e: "hfi1_get_proc_affinity sys True aff n proc_mask
            = Some (cpu, aff\<lparr>proc := set1\<lparr>cms_used := insert cpu (cms_used set1)\<rparr>\<rparr>)"
          by simp
        note g'[unfolded e]
        then have r: "r = cpu"
          and a': "aff' = aff\<lparr>proc := set1\<lparr>cms_used := insert cpu (cms_used set1)\<rparr>\<rparr>"
          by (metis option.inject prod.inject)+
        from a' r have a: "aff' = aff\<lparr>proc := set1\<lparr>cms_used := insert r (cms_used set1)\<rparr>\<rparr>"
          by simp
        from c0 r have r0: "r \<noteq> - 1" by simp
        show ?thesis
        proof (rule proc_frame_ok[OF a])
          show "cms_mask (set1\<lparr>cms_used := insert r (cms_used set1)\<rparr>) = cms_mask (proc aff)"
            by (simp add: m1)
          show "cms_used (set1\<lparr>cms_used := insert r (cms_used set1)\<rparr>) \<subseteq> cms_mask (proc aff)"
            if "cpu_mask_set_ok (proc aff)" "r = - 1 \<or> r \<in> cms_mask (proc aff)"
            using that r0 u1 by simp
        qed
      qed
    qed
  qed
qed

lemma hfi1_put_proc_affinity_inv:
  assumes g: "hfi1_put_proc_affinity sys aff cpu = Some aff'"
  shows "node_list aff' = node_list aff \<and> real_cpu_mask aff' = real_cpu_mask aff
       \<and> cms_mask (proc aff') = cms_mask (proc aff)
       \<and> (cpu_mask_set_ok (proc aff) \<longrightarrow> cpu_mask_set_ok (proc aff'))"
  using g
  by (auto simp: hfi1_put_proc_affinity_def Let_def cpumask_clear_cpu_def cpu_mask_set_ok_def
      split: if_splits bind_splits)

lemma clear_cpus_subset: "clear_cpus nr k c m = Some m' \<Longrightarrow> m' \<subseteq> m"
proof (induction k arbitrary: c m)
  case 0
  then show ?case by simp
next
  case (Suc k)
  from Suc.prems obtain m1 where m1: "cpumask_clear_cpu nr c m = Some m1"
    and rest: "clear_cpus nr k (cpumask_next nr c m1) m1 = Some m'"
    by (auto split: bind_splits)
  from m1 have "m1 \<subseteq> m" by (auto simp: cpumask_clear_cpu_def split: if_splits)
  with Suc.IH[OF rest] show ?case by simp
qed

lemma node_affinity_init_inv:
  assumes i: "node_affinity_init sys kcalloc_ok st0 = Some (r, st)"
    and topo: "cpumask_ok (nr_cpu_ids sys) (cpu_online_mask sys)"
    and empty: "node_list (node_affinity st0) = []"
  shows "registry_inv (nr_cpu_ids sys) (node_affinity st)
       \<and> proc (node_affinity st) = \<lparr>cms_mask = cpu_online_mask sys, cms_used = {}, cms_gen = 0\<rparr>"
proof -
  from i obtain real where real: "init_real_cpu_mask sys = Some real"
    and st: "node_list (node_affinity st) = node_list (node_affinity st0)"
      "real_cpu_mask (node_affinity st) = real"
      "proc (node_affinity st) = \<lparr>cms_mask = cpu_online_mask sys, cms_used = {}, cms_gen = 0\<rparr>"
    by (auto simp: node_affinity_init_def Let_def split: bind_splits if_splits)
  from real have "real \<subseteq> cpu_online_mask sys"
    by (auto simp: init_real_cpu_mask_def Let_def split: if_splits dest: clear_cpus_subset)
  with topo have "cpumask_ok (nr_cpu_ids sys) real" by (rule cpumask_ok_subset)
  with st empty show ?thesis by (simp add: registry_inv_def)
qed

subsection \<open>Sequences of operations\<close>

lemma exec_inv:
  assumes e: "exec sys op w = Some (r, w')"
    and inv: "registry_inv (nr_cpu_ids sys) (node_affinity (w_state w))"
  shows "registry_inv (nr_cpu_ids sys) (node_affinity (w_state w'))
       \<and> cms_mask (proc (node_affinity (w_state w'))) = cms_mask (proc (node_affinity (w_state w)))
       \<and> (cpu_mask_set_ok (proc (node_affinity (w_state w)))
            \<longrightarrow> (is_advise op \<longrightarrow> r = - 1 \<or> r \<in> cms_mask (proc (node_affinity (w_state w))))
            \<longrightarrow> cpu_mask_set_ok (proc (node_affinity (w_state w'))))"
proof (cases op)
  case (Op_attach u kz)
  with e obtain st' dd' where a: "hfi1_dev_affinity_init sys kz (w_state w) (w_devs w ! u) = Some (r, st', dd')"
    and w': "w_state w' = st'"
    by (auto split: if_splits bind_splits)
  from hfi1_dev_affinity_init_inv[OF a inv] show ?thesis by (simp add: w')
next
  case (Op_acquire_irq u i a)
  with e obtain aff' dd' where g: "get_irq_affinity sys a (node_affinity (w_state w)) (w_devs w ! u) i = Some (r, aff', dd')"
    and w': "node_affinity (w_state w') = aff'"
    by (auto simp: hfi1_get_irq_affinity_def set_registry_def split: if_splits bind_splits)
  from get_irq_affinity_inv[OF g inv] show ?thesis by (simp add: w')
next
  case (Op_release_irq u i)
  with e obtain aff' dd' where g: "hfi1_put_irq_affinity sys (node_affinity (w_state w)) (w_devs w ! u) i = Some (aff', dd')"
    and w': "node_affinity (w_state w') = aff'"
    by (auto simp: set_registry_def split: if_splits bind_splits)
  from hfi1_put_irq_affinity_inv[OF g inv] show ?thesis by (simp add: w')
next
  case (Op_advise n pm a)
  with e obtain aff' where g: "hfi1_get_proc_affinity sys a (node_affinity (w_state w)) n pm = Some (r, aff')"
    and w': "node_affinity (w_state w') = aff'"
    by (auto simp: set_registry_def split: bind_splits)
  from hfi1_get_proc_affinity_inv[OF g] inv Op_advise show ?thesis by (simp add: w' registry_inv_def)
next
  case (Op_release_proc cpu)
  with e obtain aff' where g: "hfi1_put_proc_affinity sys (node_affinity (w_state w)) cpu = Some aff'"
    and w': "node_affinity (w_state w') = aff'"
    by (auto simp: set_registry_def split: bind_splits)
  with hfi1_put_proc_affinity_inv[OF g] inv show ?thesis by (simp add: w' registry_inv_def)
next
  case (Op_reassign u i m)
  with e obtain aff' dd' where g: "hfi1_update_sdma_affinity sys (node_affinity (w_state w)) (w_devs w ! u) i
        (cpumask_first (nr_cpu_ids sys) m) = Some (aff', dd')"
    and w': "node_affinity (w_state w') = aff'"
    by (auto simp: set_registry_def hfi1_irq_notifier_notify_def split: if_splits bind_splits)
  from hfi1_update_sdma_affinity_inv[OF g inv] show ?thesis by (simp add: w')
qed

lemma run_registry_inv:
  assumes "run sys ops w = Some (rs, w')"
    and "registry_inv (nr_cpu_ids sys) (node_affinity (w_state w))"
  shows "registry_inv (nr_cpu_ids sys) (node_affinity (w_state w'))"
  using assms
proof (induction ops arbitrary: w rs)
  case Nil
  then show ?case by simp
next
  case (Cons op ops)
  from Cons.prems(1) obtain r w1 rs1 where e: "exec sys op w = Some (r, w1)"
    and rn: "run sys ops w1 = Some (rs1, w')"
    by (auto split: bind_splits)
  from exec_inv[OF e Cons.prems(2)] have "registry_inv (nr_cpu_ids sys) (node_affinity (w_state w1))"
    by simp
  from Cons.IH[OF rn this] show ?case .
qed


text \<open>
  Claim C3. On every interrupt set (default or receive) of an entry of the registry, in
  every state that a sequence of operations reaches from the state set up at load time:
  if the set has a CPU in its mask and, when it is full, its generation is below the
  largest value of the counter, allocation returns a CPU, and releasing that CPU at once
  restores the mask, the used set and the generation, also when the allocation reset the
  set.
\<close>

theorem C3_roundtrip:
  assumes topo: "cpumask_ok (nr_cpu_ids sys) (cpu_online_mask sys)"
    and load: "node_list (node_affinity st0) = []"
    and init: "node_affinity_init sys kcalloc_ok st0 = Some (r0, st)"
    and run: "run sys ops \<lparr>w_state = st, w_devs = devs\<rparr> = Some (rs, w)"
    and entry: "e \<in> set (node_list (node_affinity (w_state w)))"
    and ne: "cms_mask (entry_set sp e) \<noteq> {}"
    and top: "cms_used (entry_set sp e) = cms_mask (entry_set sp e) \<longrightarrow> cms_gen (entry_set sp e) \<noteq> - 1"
  shows "\<exists>cpu pool'. get_irq_affinity_set (nr_cpu_ids sys) (entry_set sp e) = Some (cpu, pool')
                    \<and> put_irq_affinity_set {cpu} pool' = entry_set sp e"
proof -
  let ?w = "\<lparr>w_state = st, w_devs = devs\<rparr>"
  from node_affinity_init_inv[OF init topo load]
  have "registry_inv (nr_cpu_ids sys) (node_affinity (w_state ?w))" by simp
  from run_registry_inv[OF run this] entry have "entry_inv (nr_cpu_ids sys) e"
    by (simp add: registry_inv_def)
  then have "irq_set_inv (nr_cpu_ids sys) (entry_set sp e)" by (rule entry_inv_set)
  then have ok: "cpumask_ok (nr_cpu_ids sys) (cms_mask (entry_set sp e))"
    and inv: "cpu_mask_set_ok (entry_set sp e)"
    and idle: "cms_used (entry_set sp e) = {} \<longrightarrow> cms_gen (entry_set sp e) = 0"
    by (simp_all add: irq_set_inv_def)
  from ok ne inv idle top show ?thesis by (rule get_put_irq_affinity_set_roundtrip)
qed

theorem C3_roundtrip_witness:
  "node_affinity_init ex_topology True ex_state0 = Some (0, ex_state)
   \<and> map_option (\<lambda>(rs, w). (rs, map def_intr (node_list (node_affinity (w_state w)))))
       (run ex_topology (take 5 ex_ops5) \<lparr>w_state = ex_state, w_devs = [ex_device5]\<rparr>)
     = Some ([0, 0, 0, 0, 0], [\<lparr>cms_mask = {6, 8}, cms_used = {6, 8}, cms_gen = 1\<rparr>])
   \<and> (\<exists>cpu pool'. get_irq_affinity_set 16 \<lparr>cms_mask = {6, 8}, cms_used = {6, 8}, cms_gen = 1\<rparr> = Some (cpu, pool')
         \<and> put_irq_affinity_set {cpu} pool' = \<lparr>cms_mask = {6, 8}, cms_used = {6, 8}, cms_gen = 1\<rparr>)"
proof -
  let ?p = "\<lparr>cms_mask = {6, 8}, cms_used = {6, 8}, cms_gen = 1\<rparr> :: cpu_mask_set"
  have topo: "cpumask_ok (nr_cpu_ids ex_topology) (cpu_online_mask ex_topology)" by code_simp
  have load: "node_list (node_affinity ex_state0) = []" by (simp add: ex_state0_def)
  have init: "node_affinity_init ex_topology True ex_state0 = Some (0, ex_state)" by code_simp
  have r: "map_option (\<lambda>(rs, w). (rs, map def_intr (node_list (node_affinity (w_state w)))))
       (run ex_topology (take 5 ex_ops5) \<lparr>w_state = ex_state, w_devs = [ex_device5]\<rparr>)
     = Some ([0, 0, 0, 0, 0], [?p])" by code_simp
  then obtain rs w where run: "run ex_topology (take 5 ex_ops5) \<lparr>w_state = ex_state, w_devs = [ex_device5]\<rparr> = Some (rs, w)"
    and d: "map def_intr (node_list (node_affinity (w_state w))) = [?p]"
    by auto
  from d obtain e where e: "node_list (node_affinity (w_state w)) = [e]" and p: "def_intr e = ?p"
    by auto
  from e have entry: "e \<in> set (node_list (node_affinity (w_state w)))" by simp
  have ne: "cms_mask (entry_set Set_def_intr e) \<noteq> {}" by (simp add: p)
  have top: "cms_used (entry_set Set_def_intr e) = cms_mask (entry_set Set_def_intr e)
               \<longrightarrow> cms_gen (entry_set Set_def_intr e) \<noteq> - 1" by (simp add: p)
  have nr: "nr_cpu_ids ex_topology = 16" by (simp add: ex_topology_def)
  from C3_roundtrip[OF topo load init run entry ne top] init r show ?thesis
    by (simp add: p nr)
qed




end
